theory Spec2Isabelle
  imports Complex_Main "HOL-Library.Extended_Nat"
begin

section \<open>JavaScript values\<close>

text \<open>
  The query engine of \<^verbatim>\<open>src/services/json-database.service.ts\<close> works on records
  read from JSON chunk files. A record is a plain object whose fields hold scalar JSON
  values; reading a field that the record does not own yields \<^verbatim>\<open>undefined\<close>, or,
  for the member names every plain object inherits from \<^verbatim>\<open>Object.prototype\<close>, the
  inherited built-in. Numbers are modelled as exact rationals (no rounding, no NaN).
  Strings are ASCII character lists.
\<close>

datatype jsval =
    JUndefined
  | JNull
  | JBool bool
  | JNum rat
  | JStr string
  | JInherited string

type_synonym jsobject = "(string \<times> jsval) list"

text \<open>
  What the JavaScript runtime contributes and has no finite description here is a
  parameter of the model: printing a number, reading a number from a string, printing a
  built-in function, and \<^verbatim>\<open>Array.prototype.sort\<close>, whose result the language fixes only
  for a consistent comparison function and leaves to the implementation otherwise.
\<close>

record host =
  numberToString :: "rat \<Rightarrow> string"
  stringToNumber :: "string \<Rightarrow> rat option"
  memberToString :: "string \<Rightarrow> string"
  sortArray :: "(jsobject \<Rightarrow> jsobject \<Rightarrow> int) \<Rightarrow> jsobject list \<Rightarrow> jsobject list"

definition objectPrototypeMembers :: "string list" where
  "objectPrototypeMembers =
     [''constructor'', ''__defineGetter__'', ''__defineSetter__'', ''hasOwnProperty'',
      ''__lookupGetter__'', ''__lookupSetter__'', ''isPrototypeOf'',
      ''propertyIsEnumerable'', ''toString'', ''valueOf'', ''__proto__'',
      ''toLocaleString'']"

text \<open>\<^verbatim>\<open>obj[key]\<close> on a plain object: own property first, then the prototype.\<close>

definition getProp :: "jsobject \<Rightarrow> string \<Rightarrow> jsval" where
  "getProp obj key =
     (case map_of obj key of
        Some v \<Rightarrow> v
      | None \<Rightarrow> if key \<in> set objectPrototypeMembers then JInherited key else JUndefined)"

text \<open>\<^verbatim>\<open>Object.prototype.hasOwnProperty.call(obj, key)\<close>\<close>

definition hasOwnProperty :: "jsobject \<Rightarrow> string \<Rightarrow> bool" where
  "hasOwnProperty obj key = (map_of obj key \<noteq> None)"

text \<open>\<^verbatim>\<open>obj[key] = v\<close>: an existing key keeps its position, a new key is appended.\<close>

fun setProp :: "jsobject \<Rightarrow> string \<Rightarrow> jsval \<Rightarrow> jsobject" where
  "setProp [] key v = [(key, v)]"
| "setProp ((k, w) # rest) key v =
     (if k = key then (k, v) # rest else (k, w) # setProp rest key v)"

fun truthy :: "jsval \<Rightarrow> bool" where
  "truthy JUndefined = False"
| "truthy JNull = False"
| "truthy (JBool b) = b"
| "truthy (JNum r) = (r \<noteq> 0)"
| "truthy (JStr s) = (s \<noteq> [])"
| "truthy (JInherited k) = True"

text \<open>\<^verbatim>\<open>a || b\<close>\<close>

definition js_or :: "jsval \<Rightarrow> jsval \<Rightarrow> jsval" where
  "js_or a b = (if truthy a then a else b)"

text \<open>\<^verbatim>\<open>typeof v === 'number'\<close>\<close>

fun isNumber :: "jsval \<Rightarrow> bool" where
  "isNumber (JNum r) = True"
| "isNumber v = False"

text \<open>
  \<^verbatim>\<open>a === b\<close>. All values of the model are primitives or the shared built-ins of
  \<^verbatim>\<open>Object.prototype\<close>, so strict equality is equality of the value; the same holds for
  the SameValueZero comparison of \<^verbatim>\<open>Array.prototype.includes\<close>.
\<close>

definition strict_eq :: "jsval \<Rightarrow> jsval \<Rightarrow> bool" where
  "strict_eq a b = (a = b)"

text \<open>\<^verbatim>\<open>String(v)\<close>\<close>

fun js_String :: "host \<Rightarrow> jsval \<Rightarrow> string" where
  "js_String H JUndefined = ''undefined''"
| "js_String H JNull = ''null''"
| "js_String H (JBool b) = (if b then ''true'' else ''false'')"
| "js_String H (JNum r) = numberToString H r"
| "js_String H (JStr s) = s"
| "js_String H (JInherited k) = memberToString H k"

text \<open>\<^verbatim>\<open>s.toLowerCase()\<close> on ASCII.\<close>

definition upperCaseLetters :: string where
  "upperCaseLetters = ''ABCDEFGHIJKLMNOPQRSTUVWXYZ''"

definition lowerCaseLetters :: string where
  "lowerCaseLetters = ''abcdefghijklmnopqrstuvwxyz''"

definition lowerChar :: "char \<Rightarrow> char" where
  "lowerChar c =
     (case map_of (zip upperCaseLetters lowerCaseLetters) c of Some d \<Rightarrow> d | None \<Rightarrow> c)"

definition toLowerCase :: "string \<Rightarrow> string" where
  "toLowerCase s = map lowerChar s"

text \<open>\<^verbatim>\<open>s.includes(needle)\<close>: \<^verbatim>\<open>needle\<close> occurs in \<^verbatim>\<open>s\<close> as a substring.\<close>

fun startsWith :: "string \<Rightarrow> string \<Rightarrow> bool" where
  "startsWith s [] = True"
| "startsWith [] (c # needle) = False"
| "startsWith (d # s) (c # needle) = (d = c \<and> startsWith s needle)"

fun js_includes :: "string \<Rightarrow> string \<Rightarrow> bool" where
  "js_includes [] needle = (needle = [])"
| "js_includes (d # s) needle = (startsWith (d # s) needle \<or> js_includes s needle)"

section \<open>The predicate evaluator: \<^verbatim>\<open>filterData\<close>\<close>

text \<open>
  A filter maps field names to clauses. The source tells the three clause shapes apart
  with \<^verbatim>\<open>Array.isArray(value)\<close> and \<^verbatim>\<open>typeof value === 'object' && value !== null\<close>;
  here they are the constructors of \<open>filter_clause\<close>. A filter is the list of its
  entries in \<^verbatim>\<open>Object.entries\<close> order.
\<close>

datatype filter_clause =
    Literal jsval
  | InList "jsval list"
  | Operators "(string \<times> jsval) list"

type_synonym filter_spec = "(string \<times> filter_clause) list"

text \<open>One case of the \<^verbatim>\<open>switch (op)\<close> inside the operator clause.\<close>

fun evalOperator :: "host \<Rightarrow> jsobject \<Rightarrow> string \<Rightarrow> string \<times> jsval \<Rightarrow> bool" where
  "evalOperator H item field (op, val) =
     (if op = ''eq'' then strict_eq (getProp item field) val
      else if op = ''ne'' then \<not> strict_eq (getProp item field) val
      else if op = ''gt'' then
        (case (getProp item field, val) of (JNum a, JNum b) \<Rightarrow> a > b | _ \<Rightarrow> False)
      else if op = ''gte'' then
        (case (getProp item field, val) of (JNum a, JNum b) \<Rightarrow> a \<ge> b | _ \<Rightarrow> False)
      else if op = ''lt'' then
        (case (getProp item field, val) of (JNum a, JNum b) \<Rightarrow> a < b | _ \<Rightarrow> False)
      else if op = ''lte'' then
        (case (getProp item field, val) of (JNum a, JNum b) \<Rightarrow> a \<le> b | _ \<Rightarrow> False)
      else if op = ''like'' then
        (case getProp item field of
           JStr s \<Rightarrow> js_includes (toLowerCase s) (toLowerCase (js_String H val))
         | _ \<Rightarrow> False)
      else True)"

declare evalOperator.simps [simp del]

text \<open>
  The body of \<^verbatim>\<open>Object.entries(filter).every(([field, value]) => ...)\<close>. The only
  object of the model that is not an array, \<^verbatim>\<open>Object.prototype\<close> itself, has no
  enumerable entries, so as a clause it is an operator map without operators.
\<close>

fun matchClause :: "host \<Rightarrow> jsobject \<Rightarrow> string \<times> filter_clause \<Rightarrow> bool" where
  "matchClause H item (field, InList vs) =
     (vs = [] \<or> list_ex (\<lambda>v. strict_eq v (getProp item field)) vs)"
| "matchClause H item (field, Operators ops) = list_all (evalOperator H item field) ops"
| "matchClause H item (field, Literal v) =
     (if v = JInherited ''__proto__'' then True else strict_eq (getProp item field) v)"

definition filterData :: "host \<Rightarrow> jsobject list \<Rightarrow> filter_spec \<Rightarrow> jsobject list" where
  "filterData H data flt =
     (if flt = [] then data
      else filter (\<lambda>item. list_all (matchClause H item) flt) data)"

text \<open>The operator names with a \<^verbatim>\<open>case\<close> of their own, and the four that compare by order.\<close>

definition recognisedOperators :: "string list" where
  "recognisedOperators = [''eq'', ''ne'', ''gt'', ''gte'', ''lt'', ''lte'', ''like'']"

definition orderingOperators :: "string list" where
  "orderingOperators = [''gt'', ''gte'', ''lt'', ''lte'']"

section \<open>The chunk store\<close>

text \<open>
  A chunk file is addressed by one of the two path patterns of \<^verbatim>\<open>readChunk\<close>:
  \<^verbatim>\<open>M&A Database_chunk_<i>.json\<close> in the data directory, or \<^verbatim>\<open>chunk_<i>.json\<close> in
  the table's directory. A file that exists either makes \<^verbatim>\<open>JSON.parse\<close> throw or parses
  to an array of records, the \<^verbatim>\<open>any[]\<close> that \<^verbatim>\<open>readChunk\<close> declares. A file that holds
  other JSON (a number, an object, an array with elements that are not objects) is
  neither missing nor unparseable and is not modelled.
\<close>

datatype chunk_path = GlobalChunkPath nat | TableChunkPath string nat

datatype file_content = Unparseable | Parsed "jsobject list"

record table_metadata =
  chunksCount :: nat
  totalRows :: nat
  columns :: "string list"

text \<open>
  The engine's state after construction: the metadata loaded for each table (the plain
  object \<^verbatim>\<open>this.metadata\<close>, as its list of own entries) and the files on disk.
\<close>

record database =
  metadata :: "(string \<times> table_metadata) list"
  files :: "chunk_path \<Rightarrow> file_content option"

datatype error = TableNotFound string | DealNotFound jsval

definition getTables :: "database \<Rightarrow> string list" where
  "getTables db = map fst (metadata db)"

text \<open>
  What a member inherited from \<^verbatim>\<open>Object.prototype\<close> looks like when it is used as table
  metadata: it has neither \<^verbatim>\<open>chunksCount\<close> nor \<^verbatim>\<open>totalRows\<close>. Both read as
  \<^verbatim>\<open>undefined\<close>; \<^verbatim>\<open>i < undefined\<close> is false and \<^verbatim>\<open>undefined\<close> is falsy, which is how
  the count 0 behaves in every use the engine makes of the two fields.
\<close>

definition inheritedMember :: table_metadata where
  "inheritedMember = \<lparr>chunksCount = 0, totalRows = 0, columns = []\<rparr>"

text \<open>
  \<^verbatim>\<open>return this.metadata[tableName] || null\<close>. The lookup is a property read on a plain
  object, so it also finds the members of its prototype: for such a name the result is a
  built-in function (or the prototype object), which is truthy.
\<close>

definition getTableMetadata :: "database \<Rightarrow> string \<Rightarrow> table_metadata option" where
  "getTableMetadata db tableName =
     (case map_of (metadata db) tableName of
        Some tm \<Rightarrow> Some tm
      | None \<Rightarrow> if tableName \<in> set objectPrototypeMembers then Some inheritedMember else None)"

text \<open>
  \<^verbatim>\<open>readChunk\<close>: \<open>None\<close> is the \<^verbatim>\<open>null\<close> the source returns when no file exists or
  when \<^verbatim>\<open>JSON.parse\<close> throws inside the \<^verbatim>\<open>try\<close>.
\<close>

definition readChunk :: "database \<Rightarrow> string \<Rightarrow> nat \<Rightarrow> jsobject list option" where
  "readChunk db tableName chunkIndex =
     (case (if tableName = ''deals'' then files db (GlobalChunkPath chunkIndex) else None) of
        Some (Parsed chunkData) \<Rightarrow> Some chunkData
      | Some Unparseable \<Rightarrow> None
      | None \<Rightarrow>
          (case files db (TableChunkPath tableName chunkIndex) of
             Some (Parsed chunkData) \<Rightarrow> Some chunkData
           | Some Unparseable \<Rightarrow> None
           | None \<Rightarrow> None))"

definition getAllData :: "database \<Rightarrow> string \<Rightarrow> error + jsobject list" where
  "getAllData db tableName =
     (case getTableMetadata db tableName of
        None \<Rightarrow> Inl (TableNotFound tableName)
      | Some tableMetadata \<Rightarrow>
          Inr (foldl (\<lambda>allData i.
                        case readChunk db tableName i of
                          Some chunkData \<Rightarrow> allData @ chunkData
                        | None \<Rightarrow> allData)
                 [] [0..<chunksCount tableMetadata]))"

section \<open>The query engine\<close>

datatype direction = Asc | Desc

record sort_spec =
  sort_field :: string
  sort_direction :: direction

text \<open>
  \<^verbatim>\<open>options.sort\<close> can be left out (the destructuring default applies), be
  \<^verbatim>\<open>null\<close> (the \<^verbatim>\<open>if (sort)\<close> guard skips sorting), or name a field and direction.
\<close>

datatype sort_option = SortAbsent | SortNull | SortBy sort_spec

text \<open>
  The other options with their defaults filled in: no \<^verbatim>\<open>filter\<close> is the empty filter,
  no \<^verbatim>\<open>limit\<close> is \<open>\<infinity>\<close>, no \<^verbatim>\<open>offset\<close> is 0, no \<^verbatim>\<open>fields\<close> is the empty list.
\<close>

record query_options =
  q_filter :: filter_spec
  q_limit :: enat
  q_offset :: nat
  q_fields :: "string list"
  q_sort :: sort_option

record query_result =
  r_data :: "jsobject list"
  r_total :: nat
  r_offset :: nat
  r_limit :: enat

definition defaultSort :: sort_spec where
  "defaultSort = \<lparr>sort_field = ''id'', sort_direction = Asc\<rparr>"

definition resolveSort :: "sort_option \<Rightarrow> sort_spec option" where
  "resolveSort s =
     (case s of SortAbsent \<Rightarrow> Some defaultSort | SortNull \<Rightarrow> None | SortBy sp \<Rightarrow> Some sp)"

text \<open>\<^verbatim>\<open>xs.slice(0, n)\<close> where \<^verbatim>\<open>n\<close> may be \<^verbatim>\<open>Infinity\<close>.\<close>

definition sliceTo :: "'a list \<Rightarrow> enat \<Rightarrow> 'a list" where
  "sliceTo xs n = (case n of enat k \<Rightarrow> take k xs | \<infinity> \<Rightarrow> xs)"

text \<open>
  The chunk loop of \<^verbatim>\<open>query\<close>, over the chunk indices still to visit, with the loop
  variables \<^verbatim>\<open>results\<close> and \<^verbatim>\<open>skipped\<close>. Offsets are natural numbers, for which
  \<^verbatim>\<open>Math.max(0, offset - skipped)\<close> is the truncated difference.
\<close>

fun queryLoop ::
  "host \<Rightarrow> database \<Rightarrow> string \<Rightarrow> filter_spec \<Rightarrow> enat \<Rightarrow> nat \<Rightarrow> nat list \<Rightarrow>
   jsobject list \<times> nat \<Rightarrow> jsobject list \<times> nat" where
  "queryLoop H db tableName flt limit offset [] (results, skipped) = (results, skipped)"
| "queryLoop H db tableName flt limit offset (i # rest) (results, skipped) =
     (if limit \<le> enat (length results) then (results, skipped)
      else
        (case readChunk db tableName i of
           None \<Rightarrow> queryLoop H db tableName flt limit offset rest (results, skipped)
         | Some chunkData \<Rightarrow>
             (let filteredChunk = filterData H chunkData flt in
              if skipped + length filteredChunk \<le> offset
              then queryLoop H db tableName flt limit offset rest
                     (results, skipped + length filteredChunk)
              else
                (let remainingToSkip = offset - skipped;
                     chunkToAdd = drop remainingToSkip filteredChunk;
                     neededCount = min (enat (length chunkToAdd)) (limit - enat (length results))
                 in queryLoop H db tableName flt limit offset rest
                      (results @ sliceTo chunkToAdd neededCount, skipped + remainingToSkip)))))"

text \<open>ASCII order of strings, as \<^verbatim>\<open><\<close> compares two strings.\<close>

fun str_lt :: "string \<Rightarrow> string \<Rightarrow> bool" where
  "str_lt [] [] = False"
| "str_lt [] (c # t) = True"
| "str_lt (d # s) [] = False"
| "str_lt (d # s) (c # t) =
     (if (of_char d :: nat) < of_char c then True
      else if (of_char c :: nat) < of_char d then False
      else str_lt s t)"

text \<open>\<^verbatim>\<open>ToPrimitive\<close>, \<^verbatim>\<open>ToNumber\<close> (\<open>None\<close> is NaN) and the relational \<^verbatim>\<open>a < b\<close>.\<close>

fun toPrimitive :: "host \<Rightarrow> jsval \<Rightarrow> jsval" where
  "toPrimitive H (JInherited k) = JStr (memberToString H k)"
| "toPrimitive H v = v"

fun toNumber :: "host \<Rightarrow> jsval \<Rightarrow> rat option" where
  "toNumber H JUndefined = None"
| "toNumber H JNull = Some 0"
| "toNumber H (JBool b) = Some (if b then 1 else 0)"
| "toNumber H (JNum r) = Some r"
| "toNumber H (JStr s) = stringToNumber H s"
| "toNumber H (JInherited k) = stringToNumber H (memberToString H k)"

definition js_lt :: "host \<Rightarrow> jsval \<Rightarrow> jsval \<Rightarrow> bool" where
  "js_lt H a b =
     (case (toPrimitive H a, toPrimitive H b) of
        (JStr s, JStr t) \<Rightarrow> str_lt s t
      | (pa, pb) \<Rightarrow>
          (case (toNumber H pa, toNumber H pb) of
             (Some x, Some y) \<Rightarrow> x < y
           | _ \<Rightarrow> False))"

text \<open>The comparator that \<^verbatim>\<open>query\<close> hands to \<^verbatim>\<open>results.sort\<close>.\<close>

definition compareBy :: "host \<Rightarrow> sort_spec \<Rightarrow> jsobject \<Rightarrow> jsobject \<Rightarrow> int" where
  "compareBy H srt a b =
     (let fieldA = getProp a (sort_field srt);
          fieldB = getProp b (sort_field srt)
      in if fieldA = JUndefined \<or> fieldA = JNull
         then (if sort_direction srt = Asc then - 1 else 1)
         else if fieldB = JUndefined \<or> fieldB = JNull
         then (if sort_direction srt = Asc then 1 else - 1)
         else if js_lt H fieldA fieldB
         then (if sort_direction srt = Asc then - 1 else 1)
         else if js_lt H fieldB fieldA
         then (if sort_direction srt = Asc then 1 else - 1)
         else 0)"

text \<open>
  \<^verbatim>\<open>results.sort(cmp)\<close> is the runtime's \<open>sortArray\<close>. The language guarantees a stable
  sort when \<^verbatim>\<open>cmp\<close> is a consistent comparison function for the elements, and only a
  reordering of the elements otherwise. A comparison function is consistent on a set
  when it is reflexive and symmetric where it returns 0 and transitive in each of its three
  outcomes.
\<close>

definition consistentOn :: "('a \<Rightarrow> 'a \<Rightarrow> int) \<Rightarrow> 'a set \<Rightarrow> bool" where
  "consistentOn cmp S \<longleftrightarrow>
     (\<forall>a\<in>S. cmp a a = 0) \<and>
     (\<forall>a\<in>S. \<forall>b\<in>S. cmp a b = 0 \<longrightarrow> cmp b a = 0) \<and>
     (\<forall>a\<in>S. \<forall>b\<in>S. \<forall>c\<in>S. cmp a b = 0 \<and> cmp b c = 0 \<longrightarrow> cmp a c = 0) \<and>
     (\<forall>a\<in>S. \<forall>b\<in>S. \<forall>c\<in>S. cmp a b < 0 \<and> cmp b c < 0 \<longrightarrow> cmp a c < 0) \<and>
     (\<forall>a\<in>S. \<forall>b\<in>S. \<forall>c\<in>S. cmp a b > 0 \<and> cmp b c > 0 \<longrightarrow> cmp a c > 0)"

text \<open>The same elements, each as often: one list is a reordering of the other.\<close>

definition sameElements :: "'a list \<Rightarrow> 'a list \<Rightarrow> bool" where
  "sameElements ys xs \<longleftrightarrow> (\<forall>x. count_list ys x = count_list xs x)"

text \<open>
  \<open>ys\<close> is \<open>xs\<close> stably sorted: a reordering in which no element is followed by one the
  comparison function puts before it, and in which the elements that compare equal to a
  given one stand in their order in \<open>xs\<close>.
\<close>

definition stablySorted :: "('a \<Rightarrow> 'a \<Rightarrow> int) \<Rightarrow> 'a list \<Rightarrow> 'a list \<Rightarrow> bool" where
  "stablySorted cmp xs ys \<longleftrightarrow>
     sameElements ys xs \<and>
     sorted_wrt (\<lambda>a b. cmp a b \<le> 0) ys \<and>
     (\<forall>x\<in>set xs. filter (\<lambda>y. cmp x y = 0) ys = filter (\<lambda>y. cmp x y = 0) xs)"

definition conformingSort :: "host \<Rightarrow> bool" where
  "conformingSort H \<longleftrightarrow>
     (\<forall>cmp xs. sameElements (sortArray H cmp xs) xs \<and>
               (consistentOn cmp (set xs) \<longrightarrow> stablySorted cmp xs (sortArray H cmp xs)))"

text \<open>A sort that conforms: insertion from the right, each element before its equals.\<close>

fun insertSorted :: "('a \<Rightarrow> 'a \<Rightarrow> int) \<Rightarrow> 'a \<Rightarrow> 'a list \<Rightarrow> 'a list" where
  "insertSorted cmp x [] = [x]"
| "insertSorted cmp x (y # ys) =
     (if cmp x y \<le> 0 then x # y # ys else y # insertSorted cmp x ys)"

definition stableSort :: "('a \<Rightarrow> 'a \<Rightarrow> int) \<Rightarrow> 'a list \<Rightarrow> 'a list" where
  "stableSort cmp xs = foldr (insertSorted cmp) xs []"

text \<open>
  The field selection: one new object per record, own properties only. Assigning to
  \<^verbatim>\<open>__proto__\<close> runs the inherited setter and adds no property to the new object.
\<close>

definition projectFields :: "string list \<Rightarrow> jsobject \<Rightarrow> jsobject" where
  "projectFields fieldNames item =
     foldl (\<lambda>result field.
              if hasOwnProperty item field \<and> field \<noteq> ''__proto__''
              then setProp result field (getProp item field)
              else result)
       [] fieldNames"

definition count :: "host \<Rightarrow> database \<Rightarrow> string \<Rightarrow> filter_spec \<Rightarrow> error + nat" where
  "count H db tableName flt =
     (case getTableMetadata db tableName of
        None \<Rightarrow> Inl (TableNotFound tableName)
      | Some tableMetadata \<Rightarrow>
          if flt = [] \<and> totalRows tableMetadata \<noteq> 0 then Inr (totalRows tableMetadata)
          else
            Inr (foldl (\<lambda>cnt i.
                          case readChunk db tableName i of
                            Some chunkData \<Rightarrow> cnt + length (filterData H chunkData flt)
                          | None \<Rightarrow> cnt)
                   0 [0..<chunksCount tableMetadata]))"

text \<open>The two steps of \<^verbatim>\<open>query\<close> after the chunk loop, and \<^verbatim>\<open>query\<close> itself.\<close>

definition applySort :: "host \<Rightarrow> sort_option \<Rightarrow> jsobject list \<Rightarrow> jsobject list" where
  "applySort H sortOption results =
     (case resolveSort sortOption of
        Some srt \<Rightarrow> sortArray H (compareBy H srt) results
      | None \<Rightarrow> results)"

definition selectFields :: "string list \<Rightarrow> jsobject list \<Rightarrow> jsobject list" where
  "selectFields fieldNames results =
     (if fieldNames \<noteq> [] then map (projectFields fieldNames) results else results)"

definition query :: "host \<Rightarrow> database \<Rightarrow> string \<Rightarrow> query_options \<Rightarrow> error + query_result" where
  "query H db tableName options =
     (case getTableMetadata db tableName of
        None \<Rightarrow> Inl (TableNotFound tableName)
      | Some tableMetadata \<Rightarrow>
          (let collected =
                 fst (queryLoop H db tableName (q_filter options) (q_limit options)
                        (q_offset options) [0..<chunksCount tableMetadata] ([], 0));
               results = selectFields (q_fields options)
                           (applySort H (q_sort options) collected)
           in case count H db tableName (q_filter options) of
                Inl e \<Rightarrow> Inl e
              | Inr n \<Rightarrow>
                  Inr \<lparr>r_data = results, r_total = n, r_offset = q_offset options,
                       r_limit = q_limit options\<rparr>))"

section \<open>The record schema adapter\<close>

text \<open>
  \<^verbatim>\<open>transformDealToCamelCase\<close> builds an object literal of twenty properties; each but
  \<^verbatim>\<open>id\<close> takes the snake_case field if it is truthy and the camelCase field otherwise.
\<close>

definition transformDealToCamelCase :: "jsobject \<Rightarrow> jsobject" where
  "transformDealToCamelCase deal =
     [(''id'', getProp deal ''id''),
      (''targetName'',
       js_or (getProp deal ''target_name'') (getProp deal ''targetName'')),
      (''announcementDate'',
       js_or (getProp deal ''announcement_date'') (getProp deal ''announcementDate'')),
      (''transactionType'',
       js_or (getProp deal ''transaction_type'') (getProp deal ''transactionType'')),
      (''transactionStatus'',
       js_or (getProp deal ''transaction_status'') (getProp deal ''transactionStatus'')),
      (''transactionValue'',
       js_or (getProp deal ''transaction_value'') (getProp deal ''transactionValue'')),
      (''divestorName'',
       js_or (getProp deal ''divestor_name'') (getProp deal ''divestorName'')),
      (''acquirerName'',
       js_or (getProp deal ''acquirer_name'') (getProp deal ''acquirerName'')),
      (''targetRegion'',
       js_or (getProp deal ''target_region'') (getProp deal ''targetRegion'')),
      (''targetDescription'',
       js_or (getProp deal ''target_description'') (getProp deal ''targetDescription'')),
      (''evEbitdaMultiple'',
       js_or (getProp deal ''ev_ebitda_multiple'') (getProp deal ''evEbitdaMultiple'')),
      (''evRevenueMultiple'',
       js_or (getProp deal ''ev_revenue_multiple'') (getProp deal ''evRevenueMultiple'')),
      (''acquirerCountry'',
       js_or (getProp deal ''acquirer_country'') (getProp deal ''acquirerCountry'')),
      (''targetIndustry1'',
       js_or (getProp deal ''target_industry_1'') (getProp deal ''targetIndustry1'')),
      (''targetIndustry2'',
       js_or (getProp deal ''target_industry_2'') (getProp deal ''targetIndustry2'')),
      (''dealSummary'',
       js_or (getProp deal ''deal_summary'') (getProp deal ''dealSummary'')),
      (''transactionConsiderations'',
       js_or (getProp deal ''transaction_considerations'') (getProp deal ''transactionConsiderations'')),
      (''targetEnterpriseValue'',
       js_or (getProp deal ''target_enterprise_value'') (getProp deal ''targetEnterpriseValue'')),
      (''targetRevenue'',
       js_or (getProp deal ''target_revenue'') (getProp deal ''targetRevenue'')),
      (''targetEbitda'',
       js_or (getProp deal ''target_ebitda'') (getProp deal ''targetEbitda''))]"

text \<open>The property names of the object \<^verbatim>\<open>transformDealToCamelCase\<close> returns, in order.\<close>

definition canonicalFields :: "string list" where
  "canonicalFields =
     [''id'', ''targetName'', ''announcementDate'', ''transactionType'',
      ''transactionStatus'', ''transactionValue'', ''divestorName'', ''acquirerName'',
      ''targetRegion'', ''targetDescription'', ''evEbitdaMultiple'',
      ''evRevenueMultiple'', ''acquirerCountry'', ''targetIndustry1'',
      ''targetIndustry2'', ''dealSummary'', ''transactionConsiderations'',
      ''targetEnterpriseValue'', ''targetRevenue'', ''targetEbitda'']"

text \<open>\<^verbatim>\<open>str.replace(/[A-Z]/g, letter => `_${letter.toLowerCase()}`)\<close>\<close>

definition camelToSnakeCase :: "string \<Rightarrow> string" where
  "camelToSnakeCase str =
     concat (map (\<lambda>letter.
                    if letter \<in> set upperCaseLetters then [CHR ''_'', lowerChar letter]
                    else [letter])
               str)"

section \<open>Lookup of one deal\<close>

text \<open>
  \<^verbatim>\<open>d.id == id\<close>: the loose equality. Booleans compare as numbers and an inherited
  built-in compares through its string form, except with another object, where identity
  decides.
\<close>

fun coerce :: "host \<Rightarrow> jsval \<Rightarrow> jsval" where
  "coerce H (JBool b) = JNum (if b then 1 else 0)"
| "coerce H (JInherited k) = JStr (memberToString H k)"
| "coerce H v = v"

definition loose_eq :: "host \<Rightarrow> jsval \<Rightarrow> jsval \<Rightarrow> bool" where
  "loose_eq H a b =
     (case (a, b) of
        (JInherited j, JInherited k) \<Rightarrow> j = k
      | _ \<Rightarrow>
          (case (coerce H a, coerce H b) of
             (JNum x, JNum y) \<Rightarrow> x = y
           | (JStr s, JStr t) \<Rightarrow> s = t
           | (JNum x, JStr t) \<Rightarrow> stringToNumber H t = Some x
           | (JStr s, JNum y) \<Rightarrow> stringToNumber H s = Some y
           | (JUndefined, JUndefined) \<Rightarrow> True
           | (JUndefined, JNull) \<Rightarrow> True
           | (JNull, JUndefined) \<Rightarrow> True
           | (JNull, JNull) \<Rightarrow> True
           | _ \<Rightarrow> False))"

text \<open>
  The chunk loop of \<^verbatim>\<open>getDealById\<close>: the first record of the first readable chunk whose
  \<^verbatim>\<open>id\<close> loosely equals the argument is returned (a record is an object, hence
  truthy); when the loop runs out, the function throws.
\<close>

fun getDealByIdLoop :: "host \<Rightarrow> database \<Rightarrow> jsval \<Rightarrow> nat list \<Rightarrow> error + jsobject" where
  "getDealByIdLoop H db ident [] = Inl (DealNotFound ident)"
| "getDealByIdLoop H db ident (i # rest) =
     (case readChunk db ''deals'' i of
        None \<Rightarrow> getDealByIdLoop H db ident rest
      | Some chunkData \<Rightarrow>
          (case find (\<lambda>d. loose_eq H (getProp d ''id'') ident) chunkData of
             Some deal \<Rightarrow> Inr (transformDealToCamelCase deal)
           | None \<Rightarrow> getDealByIdLoop H db ident rest))"

definition getDealById :: "host \<Rightarrow> database \<Rightarrow> jsval \<Rightarrow> error + jsobject" where
  "getDealById H db ident =
     (case getTableMetadata db ''deals'' of
        None \<Rightarrow> Inl (TableNotFound ''deals'')
      | Some tableMetadata \<Rightarrow> getDealByIdLoop H db ident [0..<chunksCount tableMetadata])"

section \<open>The deals view\<close>

text \<open>
  The filters the user interface sends to \<^verbatim>\<open>getDeals\<close>. A list filter is an array or
  missing; the bounds are whatever value the caller put there
  (\<^verbatim>\<open>undefined\<close> when missing).
\<close>

record deal_filters =
  transactionTypes :: "jsval list option"
  startDate :: jsval
  endDate :: jsval
  minSize :: jsval
  maxSize :: jsval
  regions :: "jsval list option"

record deals_options =
  page :: nat
  pageSize :: nat
  sortField :: string
  sortDirection :: direction
  filters :: deal_filters
  searchQuery :: string

record deals_result =
  deals :: "jsobject list"
  totalCount :: nat

text \<open>
  The translation into the filter of \<^verbatim>\<open>query\<close>, in the order in which \<^verbatim>\<open>getDeals\<close>
  adds the keys.
\<close>

definition rangeClause :: "jsval \<Rightarrow> jsval \<Rightarrow> filter_clause" where
  "rangeClause lower upper =
     Operators ((if truthy lower then [(''gte'', lower)] else []) @
                (if truthy upper then [(''lte'', upper)] else []))"

definition dealsFilter :: "deal_filters \<Rightarrow> filter_spec" where
  "dealsFilter f =
     (case transactionTypes f of
        Some (t # ts) \<Rightarrow> [(''transactionType'', InList (t # ts))]
      | _ \<Rightarrow> []) @
     (if truthy (startDate f) \<or> truthy (endDate f)
      then [(''announcementDate'', rangeClause (startDate f) (endDate f))] else []) @
     (if truthy (minSize f) \<or> truthy (maxSize f)
      then [(''transactionValue'', rangeClause (minSize f) (maxSize f))] else []) @
     (case regions f of
        Some (r # rs) \<Rightarrow> [(''targetRegion'', InList (r # rs))]
      | _ \<Rightarrow> [])"

definition searchFields :: "string list" where
  "searchFields = [''targetName'', ''acquirerName'', ''divestorName'', ''dealSummary'']"

definition matchesSearch :: "host \<Rightarrow> string \<Rightarrow> jsobject \<Rightarrow> bool" where
  "matchesSearch H searchLower item =
     list_ex (\<lambda>field.
                truthy (getProp item field) \<and>
                js_includes (toLowerCase (js_String H (getProp item field))) searchLower)
       searchFields"

definition getDeals :: "host \<Rightarrow> database \<Rightarrow> deals_options \<Rightarrow> error + deals_result" where
  "getDeals H db options =
     (case query H db ''deals''
             \<lparr>q_filter = dealsFilter (filters options),
              q_limit = enat (pageSize options),
              q_offset = page options * pageSize options,
              q_fields = [],
              q_sort = SortBy \<lparr>sort_field = camelToSnakeCase (sortField options),
                               sort_direction = sortDirection options\<rparr>\<rparr> of
        Inl e \<Rightarrow> Inl e
      | Inr queryResult \<Rightarrow>
          (let resultData =
                 (if searchQuery options \<noteq> []
                  then filter (matchesSearch H (toLowerCase (searchQuery options)))
                         (r_data queryResult)
                  else r_data queryResult)
           in Inr \<lparr>deals = map transformDealToCamelCase resultData,
                   totalCount = r_total queryResult\<rparr>))"

section \<open>The aggregation engine\<close>

text \<open>The local variables of \<^verbatim>\<open>getStatistics\<close> and the object it returns.\<close>

record stats_vars =
  v_totalDeals :: nat
  v_totalValue :: rat
  v_largestDeal :: rat
  v_sumValues :: rat
  v_valueCount :: nat
  v_completedDeals :: nat
  v_announcedDeals :: nat
  v_pendingDeals :: nat

record statistics =
  totalDeals :: nat
  totalValue :: rat
  avgDealSize :: rat
  largestDeal :: rat
  completedDeals :: nat
  announcedDeals :: nat
  pendingDeals :: nat

definition initialVars :: stats_vars where
  "initialVars =
     \<lparr>v_totalDeals = 0, v_totalValue = 0, v_largestDeal = 0, v_sumValues = 0,
      v_valueCount = 0, v_completedDeals = 0, v_announcedDeals = 0, v_pendingDeals = 0\<rparr>"

text \<open>The first half of the \<^verbatim>\<open>forEach\<close> body: the transaction value.\<close>

definition addValue :: "stats_vars \<Rightarrow> jsobject \<Rightarrow> stats_vars" where
  "addValue vars deal =
     (let val = js_or (getProp deal ''transaction_value'') (getProp deal ''transactionValue'')
      in if truthy val \<and> isNumber val
         then (case val of
                 JNum v \<Rightarrow>
                   vars\<lparr>v_totalValue := v_totalValue vars + v,
                        v_sumValues := v_sumValues vars + v,
                        v_valueCount := v_valueCount vars + 1,
                        v_largestDeal :=
                          (if v > v_largestDeal vars then v else v_largestDeal vars)\<rparr>
               | _ \<Rightarrow> vars)
         else vars)"

text \<open>The second half: the status counters.\<close>

definition addStatus :: "stats_vars \<Rightarrow> jsobject \<Rightarrow> stats_vars" where
  "addStatus vars deal =
     (let status = js_or (getProp deal ''transaction_status'') (getProp deal ''transactionStatus'')
      in if truthy status
         then (if status = JStr ''Completed''
               then vars\<lparr>v_completedDeals := v_completedDeals vars + 1\<rparr>
               else if status = JStr ''Announced''
               then vars\<lparr>v_announcedDeals := v_announcedDeals vars + 1\<rparr>
               else if status = JStr ''Pending''
               then vars\<lparr>v_pendingDeals := v_pendingDeals vars + 1\<rparr>
               else vars)
         else vars)"

definition statsChunk :: "stats_vars \<Rightarrow> jsobject list \<Rightarrow> stats_vars" where
  "statsChunk vars chunkData =
     foldl (\<lambda>vs deal. addStatus (addValue vs deal) deal)
       (vars\<lparr>v_totalDeals := v_totalDeals vars + length chunkData\<rparr>) chunkData"

definition getStatistics :: "database \<Rightarrow> error + statistics" where
  "getStatistics db =
     (case getTableMetadata db ''deals'' of
        None \<Rightarrow> Inl (TableNotFound ''deals'')
      | Some tableMetadata \<Rightarrow>
          (let vars =
                 foldl (\<lambda>vs i.
                          case readChunk db ''deals'' i of
                            None \<Rightarrow> vs
                          | Some chunkData \<Rightarrow> statsChunk vs chunkData)
                   initialVars [0..<chunksCount tableMetadata]
           in Inr \<lparr>totalDeals = v_totalDeals vars,
                   totalValue = v_totalValue vars,
                   avgDealSize =
                     (if v_valueCount vars > 0
                      then v_sumValues vars / of_nat (v_valueCount vars) else 0),
                   largestDeal = v_largestDeal vars,
                   completedDeals = v_completedDeals vars,
                   announcedDeals = v_announcedDeals vars,
                   pendingDeals = v_pendingDeals vars\<rparr>))"

section \<open>Reference views and example data\<close>

text \<open>
  Two brute-force views of a table, used to state what the loops compute: the records of
  the readable chunks in chunk order, and those among them that match a filter.
\<close>

definition readableChunks :: "database \<Rightarrow> string \<Rightarrow> nat list \<Rightarrow> jsobject list" where
  "readableChunks db tableName idxs =
     concat (map (\<lambda>i. case readChunk db tableName i of
                         None \<Rightarrow> []
                       | Some chunkData \<Rightarrow> chunkData) idxs)"

definition matchingStream ::
  "host \<Rightarrow> database \<Rightarrow> string \<Rightarrow> filter_spec \<Rightarrow> nat list \<Rightarrow> jsobject list" where
  "matchingStream H db tableName flt idxs =
     concat (map (\<lambda>i. case readChunk db tableName i of
                         None \<Rightarrow> []
                       | Some chunkData \<Rightarrow> filterData H chunkData flt) idxs)"

text \<open>
  A runtime for the closed examples. No example prints a number, reads a number from a
  string or prints a built-in, so these conversions are never consulted. Its sort is the
  stable insertion sort, which conforms.
\<close>

definition exampleHost :: host where
  "exampleHost =
     \<lparr>numberToString = (\<lambda>r. []), stringToNumber = (\<lambda>s. None),
      memberToString = (\<lambda>k. []), sortArray = stableSort\<rparr>"

text \<open>A date range as the user interface sends it, and a deal announced inside it.\<close>

definition dateFilters :: deal_filters where
  "dateFilters =
     \<lparr>transactionTypes = None, startDate = JStr ''2024-01-01'', endDate = JStr ''2024-12-31'',
      minSize = JUndefined, maxSize = JUndefined, regions = None\<rparr>"

definition marchDeal :: jsobject where
  "marchDeal = [(''id'', JNum 1), (''announcementDate'', JStr ''2024-03-01'')]"

text \<open>The file \<^verbatim>\<open>readChunk\<close> opens for a chunk: the first of its two paths that exists.\<close>

definition chunkFile :: "database \<Rightarrow> string \<Rightarrow> nat \<Rightarrow> file_content option" where
  "chunkFile db tableName chunkIndex =
     (case (if tableName = ''deals'' then files db (GlobalChunkPath chunkIndex) else None) of
        Some f \<Rightarrow> Some f
      | None \<Rightarrow> files db (TableChunkPath tableName chunkIndex))"

text \<open>
  The page of a query in chunk-stream order: the matching records of the chunks
  \<open>0..<n\<close>, without the first \<^verbatim>\<open>offset\<close> of them, cut at \<^verbatim>\<open>limit\<close>.
\<close>

definition streamPage ::
  "host \<Rightarrow> database \<Rightarrow> string \<Rightarrow> query_options \<Rightarrow> nat \<Rightarrow> jsobject list" where
  "streamPage H db tableName options n =
     sliceTo (drop (q_offset options) (matchingStream H db tableName (q_filter options) [0..<n]))
       (q_limit options)"

text \<open>Records that carry an \<^verbatim>\<open>id\<close> only, and the options of one page of a query.\<close>

definition idRecord :: "nat \<Rightarrow> jsobject" where
  "idRecord n = [(''id'', JNum (of_nat n))]"

definition pageOptions :: "nat \<Rightarrow> enat \<Rightarrow> query_options" where
  "pageOptions offset limit =
     \<lparr>q_filter = [], q_limit = limit, q_offset = offset, q_fields = [], q_sort = SortAbsent\<rparr>"

text \<open>
  A table whose metadata announces two chunks and 2000 rows, while only chunk 0, with two
  records, is on disk.
\<close>

definition staleDb :: database where
  "staleDb =
     \<lparr>metadata = [(''deals'', \<lparr>chunksCount = 2, totalRows = 2000, columns = [''id'']\<rparr>)],
      files = (\<lambda>p. if p = TableChunkPath ''deals'' 0
                     then Some (Parsed [idRecord 1, idRecord 2]) else None)\<rparr>"

text \<open>A table of one chunk whose two records are stored with the larger \<^verbatim>\<open>id\<close> first.\<close>

definition unorderedDb :: database where
  "unorderedDb =
     \<lparr>metadata = [(''deals'', \<lparr>chunksCount = 1, totalRows = 2, columns = [''id'']\<rparr>)],
      files = (\<lambda>p. if p = TableChunkPath ''deals'' 0
                     then Some (Parsed [idRecord 2, idRecord 1]) else None)\<rparr>"

text \<open>A query with a filter on the stale table, and its result.\<close>

definition idTwoQuery :: query_options where
  "idTwoQuery =
     \<lparr>q_filter = [(''id'', Literal (JNum 2))], q_limit = \<infinity>, q_offset = 0, q_fields = [],
      q_sort = SortAbsent\<rparr>"

definition idTwoResult :: query_result where
  "idTwoResult = \<lparr>r_data = [idRecord 2], r_total = 1, r_offset = 0, r_limit = \<infinity>\<rparr>"

text \<open>The query that asks for every record of a table.\<close>

definition unboundedQuery :: "sort_option \<Rightarrow> query_options" where
  "unboundedQuery srt =
     \<lparr>q_filter = [], q_limit = \<infinity>, q_offset = 0, q_fields = [], q_sort = srt\<rparr>"

text \<open>The metadata of the unordered table and the result of querying it with no options.\<close>

definition unorderedMeta :: table_metadata where
  "unorderedMeta = \<lparr>chunksCount = 1, totalRows = 2, columns = [''id'']\<rparr>"

definition reorderedResult :: query_result where
  "reorderedResult =
     \<lparr>r_data = [idRecord 1, idRecord 2], r_total = 2, r_offset = 0, r_limit = \<infinity>\<rparr>"

text \<open>
  A table of 51 deals in two chunks: chunk 0 holds the deals with \<^verbatim>\<open>id\<close> 2 to 51 in
  ascending order, chunk 1 the deal with \<^verbatim>\<open>id\<close> 1.
\<close>

definition pagingDb :: database where
  "pagingDb =
     \<lparr>metadata = [(''deals'', \<lparr>chunksCount = 2, totalRows = 51, columns = [''id'']\<rparr>)],
      files = (\<lambda>p. if p = TableChunkPath ''deals'' 0 then Some (Parsed (map idRecord [2..<52]))
                     else if p = TableChunkPath ''deals'' 1 then Some (Parsed [idRecord 1])
                     else None)\<rparr>"

text \<open>
  Two deals tables for the statistics: one with a deal of transaction value 0 and a deal of
  value 10, and the table of the specification's example, with the values 10, 20,
  \<^verbatim>\<open>null\<close> and 30.
\<close>

definition zeroValueDb :: database where
  "zeroValueDb =
     \<lparr>metadata = [(''deals'', \<lparr>chunksCount = 1, totalRows = 2, columns = [''id'', ''transaction_value'']\<rparr>)],
      files = (\<lambda>p. if p = TableChunkPath ''deals'' 0
                     then Some (Parsed [[(''id'', JNum 1), (''transaction_value'', JNum 0)],
                                        [(''id'', JNum 2), (''transaction_value'', JNum 10)]])
                     else None)\<rparr>"

definition specExampleDb :: database where
  "specExampleDb =
     \<lparr>metadata = [(''deals'', \<lparr>chunksCount = 1, totalRows = 4, columns = [''id'', ''transaction_value'']\<rparr>)],
      files = (\<lambda>p. if p = TableChunkPath ''deals'' 0
                     then Some (Parsed [[(''id'', JNum 1), (''transaction_value'', JNum 10)],
                                        [(''id'', JNum 2), (''transaction_value'', JNum 20)],
                                        [(''id'', JNum 3), (''transaction_value'', JNull)],
                                        [(''id'', JNum 4), (''transaction_value'', JNum 30)]])
                     else None)\<rparr>"

text \<open>
  The transaction values that \<^verbatim>\<open>getStatistics\<close> adds up: the value of
  \<^verbatim>\<open>deal.transaction_value || deal.transactionValue\<close> when it is a number other than 0.
\<close>

definition countedValues :: "jsobject list \<Rightarrow> rat list" where
  "countedValues rows =
     concat (map (\<lambda>deal.
                    case js_or (getProp deal ''transaction_value'') (getProp deal ''transactionValue'') of
                      JNum v \<Rightarrow> if v \<noteq> 0 then [v] else []
                    | _ \<Rightarrow> []) rows)"

text \<open>A deal in the snake_case convention, with a field the adapter does not know.\<close>

definition snakeDeal :: jsobject where
  "snakeDeal =
     [(''id'', JNum 7), (''target_name'', JStr ''Acme''), (''transaction_value'', JNum 0),
      (''transactionValue'', JNum 12), (''dateAnnounced'', JStr ''2024-03-01'')]"

text \<open>The indices of the chunks of a table of \<open>n\<close> chunks other than chunk \<open>k\<close>.\<close>

definition otherChunks :: "nat \<Rightarrow> nat \<Rightarrow> nat list" where
  "otherChunks k n = filter (\<lambda>i. i \<noteq> k) [0..<n]"

text \<open>
  A table of three chunks whose middle chunk file does not parse; the other two hold the
  deals with \<^verbatim>\<open>id\<close> 1 and 2, and the deal with \<^verbatim>\<open>id\<close> 3.
\<close>

definition gapMeta :: table_metadata where
  "gapMeta = \<lparr>chunksCount = 3, totalRows = 2003, columns = [''id'']\<rparr>"

definition gapDb :: database where
  "gapDb =
     \<lparr>metadata = [(''deals'', gapMeta)],
      files = (\<lambda>p. if p = TableChunkPath ''deals'' 0 then Some (Parsed [idRecord 1, idRecord 2])
                     else if p = TableChunkPath ''deals'' 1 then Some Unparseable
                     else if p = TableChunkPath ''deals'' 2 then Some (Parsed [idRecord 3])
                     else None)\<rparr>"

text \<open>The metadata of the table of 51 deals.\<close>

definition pagingMeta :: table_metadata where
  "pagingMeta = \<lparr>chunksCount = 2, totalRows = 51, columns = [''id'']\<rparr>"

section \<open>Properties of the predicate evaluator\<close>

lemma filterData_Nil [simp]: "filterData H [] flt = []"
  by (simp add: filterData_def)

lemma filterData_append:
  "filterData H (xs @ ys) flt = filterData H xs flt @ filterData H ys flt"
  by (simp add: filterData_def)

lemma filterData_concat:
  "filterData H (concat xss) flt = concat (map (\<lambda>xs. filterData H xs flt) xss)"
  by (induction xss) (simp_all add: filterData_append)

lemma filterData_set:
  "set (filterData H data flt) = {item \<in> set data. list_all (matchClause H item) flt}"
  by (auto simp add: filterData_def)

text \<open>
  Claim C3. A membership clause with an empty literal set matches every record, whatever
  the field: filtering any record list with \<^verbatim>\<open>{field: []}\<close> returns the list unchanged.
\<close>

theorem empty_membership_matches_all:
  "matchClause H item (field, InList []) \<and> filterData H data [(field, InList [])] = data"
  by (simp add: filterData_def)

theorem empty_membership_witness:
  "matchClause exampleHost marchDeal (''targetRegion'', InList [])
   \<and> filterData exampleHost [marchDeal, []] [(''targetRegion'', InList [])] = [marchDeal, []]"
  using empty_membership_matches_all [of exampleHost marchDeal "''targetRegion''" "[marchDeal, []]"]
  by simp

lemma ordering_operator_false:
  assumes "op \<in> set orderingOperators"
      and "\<not> (isNumber (getProp item field) \<and> isNumber val)"
  shows "\<not> evalOperator H item field (op, val)"
proof -
  from assms(1) consider "op = ''gt''" | "op = ''gte''" | "op = ''lt''" | "op = ''lte''"
    by (auto simp add: orderingOperators_def)
  then show ?thesis
    using assms(2)
    by cases (auto simp add: evalOperator.simps split: jsval.splits)
qed

text \<open>
  Claim C4. An ordering operator (\<^verbatim>\<open>gt\<close>, \<^verbatim>\<open>gte\<close>, \<^verbatim>\<open>lt\<close>, \<^verbatim>\<open>lte\<close>) whose field value
  or comparison value is not a number evaluates to a non-match: the operator is false,
  so is the clause that holds it, and the record is left out of the filtered list. The
  evaluation is a total function of the record and the filter; nothing is raised. The
  instance shown after it is the date range that \<^verbatim>\<open>getDeals\<close> builds from
  \<^verbatim>\<open>startDate\<close> and \<^verbatim>\<open>endDate\<close>: both bounds are strings, and a deal announced
  inside the range is filtered out.
\<close>

theorem ordering_on_non_numbers_never_matches:
  assumes "op \<in> set orderingOperators"
      and "\<not> (isNumber (getProp item field) \<and> isNumber val)"
      and "(field, Operators ops) \<in> set flt"
      and "(op, val) \<in> set ops"
  shows "\<not> evalOperator H item field (op, val)
       \<and> \<not> matchClause H item (field, Operators ops)
       \<and> item \<notin> set (filterData H data flt)"
proof -
  have one: "\<not> evalOperator H item field (op, val)"
    using assms(1,2) by (rule ordering_operator_false)
  with assms(4) have clause: "\<not> matchClause H item (field, Operators ops)"
    by (auto simp add: list_all_iff)
  have "\<not> list_all (matchClause H item) flt"
    unfolding list_all_iff using assms(3) clause by blast
  then have "item \<notin> set (filterData H data flt)"
    by (simp add: filterData_set)
  with one clause show ?thesis by simp
qed

lemma dealsFilter_dateFilters:
  "dealsFilter dateFilters =
     [(''announcementDate'',
       Operators [(''gte'', JStr ''2024-01-01''), (''lte'', JStr ''2024-12-31'')])]"
  by (simp add: dealsFilter_def dateFilters_def rangeClause_def)

theorem ordering_on_non_numbers_witness:
  "''gte'' \<in> set orderingOperators
   \<and> \<not> (isNumber (getProp marchDeal ''announcementDate'') \<and> isNumber (JStr ''2024-01-01''))
   \<and> (''announcementDate'',
        Operators [(''gte'', JStr ''2024-01-01''), (''lte'', JStr ''2024-12-31'')])
       \<in> set (dealsFilter dateFilters)
   \<and> (''gte'', JStr ''2024-01-01'')
       \<in> set [(''gte'', JStr ''2024-01-01''), (''lte'', JStr ''2024-12-31'')]
   \<and> \<not> evalOperator exampleHost marchDeal ''announcementDate'' (''gte'', JStr ''2024-01-01'')
   \<and> marchDeal \<notin> set (filterData exampleHost [marchDeal] (dealsFilter dateFilters))"
proof -
  have h1: "''gte'' \<in> set orderingOperators"
    by (simp add: orderingOperators_def)
  have h2: "\<not> (isNumber (getProp marchDeal ''announcementDate'')
              \<and> isNumber (JStr ''2024-01-01''))"
    by simp
  have h3: "(''announcementDate'',
             Operators [(''gte'', JStr ''2024-01-01''), (''lte'', JStr ''2024-12-31'')])
            \<in> set (dealsFilter dateFilters)"
    by (simp add: dealsFilter_dateFilters)
  have h4: "(''gte'', JStr ''2024-01-01'')
            \<in> set [(''gte'', JStr ''2024-01-01''), (''lte'', JStr ''2024-12-31'')]"
    by simp
  from ordering_on_non_numbers_never_matches [OF h1 h2 h3 h4, of exampleHost "[marchDeal]"]
    h1 h2 h3 h4
  show ?thesis by blast
qed

text \<open>
  Claim C10. An operator key that is none of \<^verbatim>\<open>eq\<close>, \<^verbatim>\<open>ne\<close>, \<^verbatim>\<open>gt\<close>, \<^verbatim>\<open>gte\<close>,
  \<^verbatim>\<open>lt\<close>, \<^verbatim>\<open>lte\<close>, \<^verbatim>\<open>like\<close> falls to the \<^verbatim>\<open>default\<close> case and matches every
  record: a clause made of such an operator leaves any record list unchanged.
\<close>

theorem unknown_operator_matches:
  assumes "op \<notin> set recognisedOperators"
  shows "evalOperator H item field (op, val)
       \<and> filterData H data [(field, Operators [(op, val)])] = data"
proof -
  from assms have "evalOperator H item field (op, val)" for item
    by (simp add: recognisedOperators_def evalOperator.simps)
  then show ?thesis by (simp add: filterData_def)
qed

theorem unknown_operator_witness:
  "''gtt'' \<notin> set recognisedOperators
   \<and> evalOperator exampleHost marchDeal ''id'' (''gtt'', JNum 5)
   \<and> filterData exampleHost [marchDeal] [(''id'', Operators [(''gtt'', JNum 5)])] = [marchDeal]"
proof -
  have h: "''gtt'' \<notin> set recognisedOperators"
    by (simp add: recognisedOperators_def)
  from unknown_operator_matches [OF h, of exampleHost marchDeal "''id''" "JNum 5" "[marchDeal]"] h
  show ?thesis by simp
qed

section \<open>What the loops compute\<close>

lemma sliceTo_zero [simp]: "sliceTo xs 0 = []"
  by (simp add: sliceTo_def zero_enat_def)

lemma sliceTo_infinity [simp]: "sliceTo xs \<infinity> = xs"
  by (simp add: sliceTo_def)

lemma sliceTo_append:
  "sliceTo (xs @ ys) n = sliceTo xs n @ sliceTo ys (n - enat (length xs))"
  by (cases n) (simp_all add: sliceTo_def)

lemma sliceTo_min: "sliceTo xs (min (enat (length xs)) n) = sliceTo xs n"
  by (cases n) (simp_all add: sliceTo_def min_def)

lemma sliceTo_rest:
  "sliceTo ys (limit - enat (r + length (sliceTo xs (limit - enat r)))) =
   sliceTo ys (limit - enat r - enat (length xs))"
  by (cases limit) (simp_all add: sliceTo_def min_def)

lemma matchingStream_Cons:
  "matchingStream H db t flt (i # rest) =
     (case readChunk db t i of None \<Rightarrow> [] | Some chunkData \<Rightarrow> filterData H chunkData flt)
       @ matchingStream H db t flt rest"
  by (simp add: matchingStream_def)

lemma queryLoop_collects:
  "skipped \<le> offset \<Longrightarrow>
   fst (queryLoop H db t flt limit offset idxs (results, skipped)) =
     results @ sliceTo (drop (offset - skipped) (matchingStream H db t flt idxs))
                 (limit - enat (length results))"
proof (induction idxs arbitrary: results skipped)
  case Nil
  then show ?case by (simp add: matchingStream_def sliceTo_def split: enat.splits)
next
  case (Cons i rest)
  show ?case
  proof (cases "limit \<le> enat (length results)")
    case True
    then have "limit - enat (length results) = 0"
      by (cases limit) (simp_all add: zero_enat_def)
    with True show ?thesis by simp
  next
    case open_: False
    show ?thesis
    proof (cases "readChunk db t i")
      case None
      with open_ Cons show ?thesis by (simp add: matchingStream_Cons)
    next
      case (Some chunkData)
      define c where "c = filterData H chunkData flt"
      show ?thesis
      proof (cases "skipped + length c \<le> offset")
        case True
        then have "drop (offset - skipped) (c @ matchingStream H db t flt rest) =
                   drop (offset - (skipped + length c)) (matchingStream H db t flt rest)"
          by simp
        with open_ Some True Cons.IH [of "skipped + length c" results] show ?thesis
          by (simp add: matchingStream_Cons c_def)
      next
        case False
        with Cons.prems have short: "offset - skipped < length c" by simp
        let ?cta = "drop (offset - skipped) c"
        let ?L = "limit - enat (length results)"
        have "fst (queryLoop H db t flt limit offset (i # rest) (results, skipped)) =
              fst (queryLoop H db t flt limit offset rest (results @ sliceTo ?cta ?L, offset))"
          using open_ Some False Cons.prems by (simp add: c_def Let_def sliceTo_min)
        also have "\<dots> = (results @ sliceTo ?cta ?L) @
                   sliceTo (matchingStream H db t flt rest)
                     (limit - enat (length (results @ sliceTo ?cta ?L)))"
          using Cons.IH [of offset "results @ sliceTo ?cta ?L"] by simp
        also have "\<dots> = results @ sliceTo (?cta @ matchingStream H db t flt rest) ?L"
          by (simp add: sliceTo_append sliceTo_rest)
        finally show ?thesis using Some short by (simp add: matchingStream_Cons c_def)
      qed
    qed
  qed
qed

lemma matchingStream_filter:
  "matchingStream H db t flt idxs = filterData H (readableChunks db t idxs) flt"
  unfolding matchingStream_def readableChunks_def filterData_concat map_map
  by (rule arg_cong [where f = concat], rule map_cong) (auto split: option.splits)

lemma allData_loop:
  "foldl (\<lambda>allData i. case readChunk db t i of
                         Some chunkData \<Rightarrow> allData @ chunkData
                       | None \<Rightarrow> allData) acc idxs =
   acc @ readableChunks db t idxs"
  by (induction idxs arbitrary: acc) (simp_all add: readableChunks_def split: option.splits)

lemma getAllData_readable:
  "getTableMetadata db t = Some tm \<Longrightarrow>
   getAllData db t = Inr (readableChunks db t [0..<chunksCount tm])"
  by (simp add: getAllData_def allData_loop)

lemma count_loop:
  "foldl (\<lambda>cnt i. case readChunk db t i of
                     Some chunkData \<Rightarrow> cnt + length (filterData H chunkData flt)
                   | None \<Rightarrow> cnt) n idxs =
   n + length (matchingStream H db t flt idxs)"
  by (induction idxs arbitrary: n) (simp_all add: matchingStream_def split: option.splits)

lemma count_value:
  "getTableMetadata db t = Some tm \<Longrightarrow>
   count H db t flt =
     Inr (if flt = [] \<and> totalRows tm \<noteq> 0 then totalRows tm
          else length (filterData H (readableChunks db t [0..<chunksCount tm]) flt))"
  by (simp add: count_def count_loop matchingStream_filter)

lemma query_value:
  "getTableMetadata db t = Some tm \<Longrightarrow>
   query H db t opts =
     Inr \<lparr>r_data = selectFields (q_fields opts)
                     (applySort H (q_sort opts) (streamPage H db t opts (chunksCount tm))),
          r_total = (if q_filter opts = [] \<and> totalRows tm \<noteq> 0 then totalRows tm
                     else length (filterData H (readableChunks db t [0..<chunksCount tm])
                                    (q_filter opts))),
          r_offset = q_offset opts, r_limit = q_limit opts\<rparr>"
  using queryLoop_collects [of 0 "q_offset opts" H db t "q_filter opts" "q_limit opts"
          "[0..<chunksCount tm]" "[]"]
  by (simp add: query_def count_value streamPage_def Let_def zero_enat_def [symmetric])

lemma query_not_found:
  "getTableMetadata db t = None \<Longrightarrow> query H db t opts = Inl (TableNotFound t)"
  by (simp add: query_def)

lemma query_Inr_metadata:
  "query H db t opts = Inr res \<Longrightarrow> \<exists>tm. getTableMetadata db t = Some tm"
  by (cases "getTableMetadata db t") (simp_all add: query_not_found)

lemma streamPage_rows:
  "streamPage H db t opts n =
     sliceTo (drop (q_offset opts) (filterData H (readableChunks db t [0..<n]) (q_filter opts)))
       (q_limit opts)"
  by (simp add: streamPage_def matchingStream_filter)

section \<open>The total of a query\<close>

text \<open>
  Claim C2 says that \<^verbatim>\<open>total\<close> is always the number of records of
  \<^verbatim>\<open>getAllData\<close> that match the filter. For the empty filter \<^verbatim>\<open>count\<close> returns the
  metadata's \<^verbatim>\<open>totalRows\<close> without reading a chunk. On the stale table the metadata
  says 2000 rows while the chunks on disk hold two records, all of which match the empty
  filter: the total is 2000, the scan finds 2.
\<close>

theorem total_trusts_metadata_counterexample:
  "query exampleHost staleDb ''deals'' (pageOptions 0 \<infinity>) =
     Inr \<lparr>r_data = [idRecord 1, idRecord 2], r_total = 2000, r_offset = 0, r_limit = \<infinity>\<rparr>
   \<and> getAllData staleDb ''deals'' = Inr [idRecord 1, idRecord 2]
   \<and> length (filterData exampleHost [idRecord 1, idRecord 2] []) = 2"
  by code_simp

text \<open>
  Claim C2, as amended. The total of a successful query is the metadata's
  \<^verbatim>\<open>totalRows\<close> when the filter is empty and \<^verbatim>\<open>totalRows\<close> is not 0, and in every
  other case the number of records of \<^verbatim>\<open>getAllData\<close> that match the filter. It does
  not depend on \<^verbatim>\<open>limit\<close>, \<^verbatim>\<open>offset\<close>, \<^verbatim>\<open>fields\<close> or \<^verbatim>\<open>sort\<close>.
\<close>

theorem total_is_metadata_or_scan:
  assumes "query H db t opts = Inr res"
  shows "\<exists>tm rows. getTableMetadata db t = Some tm \<and> getAllData db t = Inr rows
           \<and> r_total res =
               (if q_filter opts = [] \<and> totalRows tm \<noteq> 0 then totalRows tm
                else length (filterData H rows (q_filter opts)))"
proof -
  from assms obtain tm where tm: "getTableMetadata db t = Some tm"
    by (auto dest: query_Inr_metadata)
  from tm assms have "r_total res =
      (if q_filter opts = [] \<and> totalRows tm \<noteq> 0 then totalRows tm
       else length (filterData H (readableChunks db t [0..<chunksCount tm]) (q_filter opts)))"
    by (auto simp add: query_value)
  with tm getAllData_readable [OF tm] show ?thesis by blast
qed

theorem total_is_metadata_or_scan_witness:
  "query exampleHost staleDb ''deals'' idTwoQuery = Inr idTwoResult
   \<and> (\<exists>tm rows. getTableMetadata staleDb ''deals'' = Some tm
         \<and> getAllData staleDb ''deals'' = Inr rows
         \<and> r_total idTwoResult =
               (if q_filter idTwoQuery = [] \<and> totalRows tm \<noteq> 0 then totalRows tm
                else length (filterData exampleHost rows (q_filter idTwoQuery))))"
proof -
  have h: "query exampleHost staleDb ''deals'' idTwoQuery = Inr idTwoResult"
    by code_simp
  from total_is_metadata_or_scan [OF h] h show ?thesis
    by blast
qed

section \<open>The sort of a conforming runtime\<close>

text \<open>
  The insertion sort returns a reordering of its input and, for a consistent comparison
  function, the stably sorted one; there is only one such list, so every conforming
  runtime returns it.
\<close>

lemma count_insertSorted:
  "count_list (insertSorted cmp x ys) z = count_list (x # ys) z"
  by (induction ys) auto

lemma sameElements_stableSort: "sameElements (stableSort cmp xs) xs"
  unfolding sameElements_def
proof
  fix z show "count_list (stableSort cmp xs) z = count_list xs z"
    by (induction xs) (simp_all add: stableSort_def count_insertSorted)
qed

lemma sameElements_set:
  assumes "sameElements ys xs"
  shows "set ys = set xs"
proof -
  have "x \<in> set ys \<longleftrightarrow> x \<in> set xs" for x
  proof -
    have "x \<in> set ys \<longleftrightarrow> count_list ys x \<noteq> 0" by (simp add: count_list_0_iff)
    also have "\<dots> \<longleftrightarrow> count_list xs x \<noteq> 0" using assms by (simp add: sameElements_def)
    also have "\<dots> \<longleftrightarrow> x \<in> set xs" by (simp add: count_list_0_iff)
    finally show ?thesis .
  qed
  then show ?thesis by blast
qed

lemma sameElements_length:
  assumes "sameElements ys xs"
  shows "length ys = length xs"
proof -
  have "length ys = sum (count_list ys) (set ys)"
    by (simp add: sum_count_set)
  also have "\<dots> = sum (count_list xs) (set xs)"
    using assms sameElements_set [OF assms] by (simp add: sameElements_def)
  also have "\<dots> = length xs"
    by (simp add: sum_count_set)
  finally show ?thesis .
qed

lemma set_insertSorted [simp]: "set (insertSorted cmp x ys) = insert x (set ys)"
  by (induction ys) auto

lemma set_stableSort [simp]: "set (stableSort cmp xs) = set xs"
  by (induction xs) (simp_all add: stableSort_def)

lemma stableSort_Cons: "stableSort cmp (x # xs) = insertSorted cmp x (stableSort cmp xs)"
  by (simp add: stableSort_def)

lemma consistent_flip:
  assumes "consistentOn cmp S" "a \<in> S" "b \<in> S" "cmp a b > 0"
  shows "cmp b a < 0"
proof (rule ccontr)
  assume "\<not> cmp b a < 0"
  then consider "cmp b a = 0" | "cmp b a > 0" by linarith
  then show False
  proof cases
    case 1
    with assms have "cmp a b = 0" unfolding consistentOn_def by blast
    with assms(4) show False by simp
  next
    case 2
    with assms have "cmp a a > 0" unfolding consistentOn_def by blast
    moreover from assms have "cmp a a = 0" unfolding consistentOn_def by blast
    ultimately show False by simp
  qed
qed

lemma consistent_flip':
  assumes "consistentOn cmp S" "a \<in> S" "b \<in> S" "cmp a b < 0"
  shows "cmp b a > 0"
proof (rule ccontr)
  assume "\<not> cmp b a > 0"
  then consider "cmp b a = 0" | "cmp b a < 0" by linarith
  then show False
  proof cases
    case 1
    with assms have "cmp a b = 0" unfolding consistentOn_def by blast
    with assms(4) show False by simp
  next
    case 2
    with assms have "cmp a a < 0" unfolding consistentOn_def by blast
    moreover from assms have "cmp a a = 0" unfolding consistentOn_def by blast
    ultimately show False by simp
  qed
qed

lemma consistent_le_trans:
  assumes c: "consistentOn cmp S" and m: "a \<in> S" "b \<in> S" "d \<in> S"
      and ab: "cmp a b \<le> 0" and bd: "cmp b d \<le> 0"
  shows "cmp a d \<le> 0"
proof (rule ccontr)
  assume "\<not> cmp a d \<le> 0"
  then have ad: "cmp a d > 0" by simp
  then have da: "cmp d a < 0" using c m by (auto intro: consistent_flip)
  show False
  proof (cases "cmp a b = 0")
    case True
    show ?thesis
    proof (cases "cmp b d = 0")
      case True
      with \<open>cmp a b = 0\<close> c m have "cmp a d = 0" unfolding consistentOn_def by blast
      with ad show ?thesis by simp
    next
      case False
      with bd have "cmp b d < 0" by simp
      with da c m have "cmp b a < 0" unfolding consistentOn_def by blast
      moreover from True c m have "cmp b a = 0" unfolding consistentOn_def by blast
      ultimately show ?thesis by simp
    qed
  next
    case False
    with ab have lt: "cmp a b < 0" by simp
    show ?thesis
    proof (cases "cmp b d = 0")
      case True
      from da lt c m have "cmp d b < 0" unfolding consistentOn_def by blast
      moreover from True c m have "cmp d b = 0" unfolding consistentOn_def by blast
      ultimately show ?thesis by simp
    next
      case False
      with bd have "cmp b d < 0" by simp
      with lt c m have "cmp a d < 0" unfolding consistentOn_def by blast
      with ad show ?thesis by simp
    qed
  qed
qed

lemma sorted_insertSorted:
  assumes "consistentOn cmp S" and "x \<in> S" and "set ys \<subseteq> S"
      and "sorted_wrt (\<lambda>a b. cmp a b \<le> 0) ys"
  shows "sorted_wrt (\<lambda>a b. cmp a b \<le> 0) (insertSorted cmp x ys)"
  using assms(3,4)
proof (induction ys)
  case Nil
  then show ?case by simp
next
  case (Cons y ys)
  show ?case
  proof (cases "cmp x y \<le> 0")
    case True
    have "cmp x z \<le> 0" if "z \<in> set ys" for z
    proof -
      from that Cons.prems have "cmp y z \<le> 0" "z \<in> S" "y \<in> S" by auto
      with True assms(1,2) show ?thesis
        using consistent_le_trans [of cmp S x y z] by simp
    qed
    with True Cons.prems show ?thesis by simp
  next
    case False
    with assms(1,2) Cons.prems have "cmp y x < 0"
      using consistent_flip [of cmp S x y] by simp
    with False Cons show ?thesis by auto
  qed
qed

lemma sorted_stableSort:
  assumes "consistentOn cmp S" and "set xs \<subseteq> S"
  shows "sorted_wrt (\<lambda>a b. cmp a b \<le> 0) (stableSort cmp xs)"
  using assms(2)
proof (induction xs)
  case Nil
  then show ?case by (simp add: stableSort_def)
next
  case (Cons x xs)
  then show ?case
    using sorted_insertSorted [OF assms(1), of x "stableSort cmp xs"]
    by (simp add: stableSort_Cons)
qed

lemma filter_insertSorted:
  assumes "consistentOn cmp S" and "z \<in> S" and "x \<in> S" and "set ys \<subseteq> S"
  shows "filter (\<lambda>y. cmp z y = 0) (insertSorted cmp x ys) =
           (if cmp z x = 0 then x # filter (\<lambda>y. cmp z y = 0) ys
            else filter (\<lambda>y. cmp z y = 0) ys)"
  using assms(4)
proof (induction ys)
  case Nil
  then show ?case by simp
next
  case (Cons y ys)
  show ?case
  proof (cases "cmp x y \<le> 0")
    case True
    then show ?thesis by simp
  next
    case False
    have "\<not> (cmp z x = 0 \<and> cmp z y = 0)"
    proof
      assume both: "cmp z x = 0 \<and> cmp z y = 0"
      from Cons.prems have "y \<in> S" by simp
      with both assms(1,2,3) have "cmp x z = 0"
        unfolding consistentOn_def by blast
      with both assms(1,2,3) \<open>y \<in> S\<close> have "cmp x y = 0"
        unfolding consistentOn_def by blast
      with False show False by simp
    qed
    with False Cons show ?thesis by auto
  qed
qed

lemma filter_stableSort:
  assumes "consistentOn cmp S" and "z \<in> S" and "set xs \<subseteq> S"
  shows "filter (\<lambda>y. cmp z y = 0) (stableSort cmp xs) = filter (\<lambda>y. cmp z y = 0) xs"
  using assms(3)
proof (induction xs)
  case Nil
  then show ?case by (simp add: stableSort_def)
next
  case (Cons x xs)
  then show ?case
    using filter_insertSorted [OF assms(1,2), of x "stableSort cmp xs"]
    by (simp add: stableSort_Cons)
qed

lemma stablySorted_stableSort:
  "consistentOn cmp (set xs) \<Longrightarrow> stablySorted cmp xs (stableSort cmp xs)"
  unfolding stablySorted_def
  by (simp add: sameElements_stableSort sorted_stableSort [of cmp "set xs"]
        filter_stableSort [of cmp "set xs"])

lemma conformingSort_exampleHost: "conformingSort exampleHost"
  by (simp add: conformingSort_def exampleHost_def sameElements_stableSort
        stablySorted_stableSort)

lemma sameElements_Cons:
  "sameElements (y # ys) (y # zs) \<Longrightarrow> sameElements ys zs"
  unfolding sameElements_def
proof
  fix x assume a: "\<forall>x. count_list (y # ys) x = count_list (y # zs) x"
  from a have "count_list (y # ys) x = count_list (y # zs) x" by blast
  then show "count_list ys x = count_list zs x" by (simp split: if_splits)
qed

lemma stable_sort_unique:
  assumes "consistentOn cmp S"
  shows "set ys \<subseteq> S \<Longrightarrow> sameElements ys zs \<Longrightarrow>
         sorted_wrt (\<lambda>a b. cmp a b \<le> 0) ys \<Longrightarrow> sorted_wrt (\<lambda>a b. cmp a b \<le> 0) zs \<Longrightarrow>
         (\<And>x. x \<in> set ys \<Longrightarrow> filter (\<lambda>y. cmp x y = 0) ys = filter (\<lambda>y. cmp x y = 0) zs) \<Longrightarrow>
         ys = zs"
proof (induction ys arbitrary: zs)
  case Nil
  then have "length zs = 0" using sameElements_length [of "[]" zs] by simp
  then show ?case by simp
next
  case (Cons y ys)
  from Cons.prems(2) have len: "length zs = Suc (length ys)"
    using sameElements_length [of "y # ys" zs] by simp
  then obtain z zs' where zs: "zs = z # zs'" by (cases zs) auto
  from Cons.prems(2) have sets: "set (y # ys) = set zs" by (rule sameElements_set)
  from Cons.prems(1) have yS: "y \<in> S" by simp
  from sets zs Cons.prems(1) have zS: "z \<in> S" by auto
  have refl: "cmp a a = 0" if "a \<in> S" for a
    using assms that unfolding consistentOn_def by blast
  have yz: "cmp y z \<le> 0"
  proof -
    from sets zs have "z = y \<or> z \<in> set ys" by auto
    then show ?thesis using Cons.prems(3) refl [OF yS] by auto
  qed
  have zy: "cmp z y \<le> 0"
  proof -
    from sets zs have "y = z \<or> y \<in> set zs'" by auto
    then show ?thesis using Cons.prems(4) zs refl [OF zS] by auto
  qed
  have eq: "cmp y z = 0"
  proof (rule ccontr)
    assume "cmp y z \<noteq> 0"
    with yz have "cmp y z < 0" by simp
    then have "cmp z y > 0" using consistent_flip' [OF assms yS zS] by simp
    with zy show False by simp
  qed
  have "filter (\<lambda>v. cmp y v = 0) (y # ys) = filter (\<lambda>v. cmp y v = 0) zs"
    using Cons.prems(5) [of y] by simp
  with eq zs refl [OF yS] have y_z: "y = z" by simp
  have tails: "ys = zs'"
  proof (rule Cons.IH)
    show "set ys \<subseteq> S" using Cons.prems(1) by simp
    show "sameElements ys zs'" using Cons.prems(2) zs y_z by (auto dest: sameElements_Cons)
    show "sorted_wrt (\<lambda>a b. cmp a b \<le> 0) ys" using Cons.prems(3) by simp
    show "sorted_wrt (\<lambda>a b. cmp a b \<le> 0) zs'" using Cons.prems(4) zs by simp
    fix x assume "x \<in> set ys"
    then have "filter (\<lambda>v. cmp x v = 0) (y # ys) = filter (\<lambda>v. cmp x v = 0) (y # zs')"
      using Cons.prems(5) [of x] zs y_z by simp
    then show "filter (\<lambda>v. cmp x v = 0) ys = filter (\<lambda>v. cmp x v = 0) zs'"
      by (simp split: if_splits)
  qed
  with zs y_z show ?case by simp
qed

lemma stablySorted_unique:
  assumes "consistentOn cmp (set xs)" and "stablySorted cmp xs ys" and "stablySorted cmp xs zs"
  shows "ys = zs"
proof (rule stable_sort_unique [OF assms(1)])
  from assms(2) have ys: "sameElements ys xs" by (simp add: stablySorted_def)
  from assms(3) have zs: "sameElements zs xs" by (simp add: stablySorted_def)
  show "set ys \<subseteq> set xs" using sameElements_set [OF ys] by simp
  show "sameElements ys zs" using ys zs by (simp add: sameElements_def)
  show "sorted_wrt (\<lambda>a b. cmp a b \<le> 0) ys" using assms(2) by (simp add: stablySorted_def)
  show "sorted_wrt (\<lambda>a b. cmp a b \<le> 0) zs" using assms(3) by (simp add: stablySorted_def)
  fix x assume "x \<in> set ys"
  then have "x \<in> set xs" using sameElements_set [OF ys] by simp
  with assms(2,3) show "filter (\<lambda>y. cmp x y = 0) ys = filter (\<lambda>y. cmp x y = 0) zs"
    by (simp add: stablySorted_def)
qed

lemma conforming_sort_is_stableSort:
  assumes "conformingSort H" and "consistentOn cmp (set xs)"
  shows "sortArray H cmp xs = stableSort cmp xs"
proof -
  from assms have "stablySorted cmp xs (sortArray H cmp xs)"
    by (simp add: conformingSort_def)
  with assms(2) show ?thesis
    using stablySorted_stableSort [OF assms(2)] by (rule stablySorted_unique)
qed

lemma stableSort_in_order:
  "sorted_wrt (\<lambda>a b. cmp a b \<le> 0) xs \<Longrightarrow> stableSort cmp xs = xs"
proof (induction xs)
  case Nil
  then show ?case by (simp add: stableSort_def)
next
  case (Cons x xs)
  then have "stableSort cmp xs = xs" by simp
  with Cons.prems show ?case
    by (cases xs) (simp_all add: stableSort_Cons)
qed

text \<open>
  The comparator of \<^verbatim>\<open>query\<close>: a record without the sort field goes first under
  \<^verbatim>\<open>asc\<close> and last under \<^verbatim>\<open>desc\<close>, whatever it is compared with, and numbers compare
  by value. On records whose sort field is a number it is consistent. Where it is
  consistent and ascending, it puts no record after one with a larger key.
\<close>

lemma compareBy_numbers:
  assumes "getProp a f = JNum x" and "getProp b f = JNum y"
  shows "compareBy H \<lparr>sort_field = f, sort_direction = d\<rparr> a b =
           (if x < y then (if d = Asc then - 1 else 1)
            else if y < x then (if d = Asc then 1 else - 1) else 0)"
  using assms by (simp add: compareBy_def js_lt_def)

lemma compareBy_missing:
  assumes "getProp a (sort_field srt) = JUndefined \<or> getProp a (sort_field srt) = JNull"
  shows "compareBy H srt a b = (if sort_direction srt = Asc then - 1 else 1)"
  using assms by (auto simp add: compareBy_def)

lemma compareBy_other_missing:
  assumes "getProp a (sort_field srt) \<noteq> JUndefined" "getProp a (sort_field srt) \<noteq> JNull"
      and "getProp b (sort_field srt) = JUndefined \<or> getProp b (sort_field srt) = JNull"
  shows "compareBy H srt a b = (if sort_direction srt = Asc then 1 else - 1)"
  using assms by (auto simp add: compareBy_def)

lemma numeric_keys_consistent:
  assumes "\<And>r. r \<in> S \<Longrightarrow> isNumber (getProp r f)"
  shows "consistentOn (compareBy H \<lparr>sort_field = f, sort_direction = d\<rparr>) S"
proof -
  have num: "\<exists>x. getProp r f = JNum x" if "r \<in> S" for r
    using assms [OF that] by (cases "getProp r f") simp_all
  show ?thesis
    unfolding consistentOn_def
  proof (intro conjI ballI impI)
    fix a assume "a \<in> S"
    then show "compareBy H \<lparr>sort_field = f, sort_direction = d\<rparr> a a = 0"
      using num [of a] by (auto simp add: compareBy_numbers)
  next
    fix a b assume "a \<in> S" "b \<in> S" "compareBy H \<lparr>sort_field = f, sort_direction = d\<rparr> a b = 0"
    then show "compareBy H \<lparr>sort_field = f, sort_direction = d\<rparr> b a = 0"
      using num [of a] num [of b] by (auto simp add: compareBy_numbers split: if_splits)
  next
    fix a b c assume "a \<in> S" "b \<in> S" "c \<in> S"
      "compareBy H \<lparr>sort_field = f, sort_direction = d\<rparr> a b = 0
       \<and> compareBy H \<lparr>sort_field = f, sort_direction = d\<rparr> b c = 0"
    then show "compareBy H \<lparr>sort_field = f, sort_direction = d\<rparr> a c = 0"
      using num [of a] num [of b] num [of c]
      by (auto simp add: compareBy_numbers split: if_splits)
  next
    fix a b c assume "a \<in> S" "b \<in> S" "c \<in> S"
      "compareBy H \<lparr>sort_field = f, sort_direction = d\<rparr> a b < 0
       \<and> compareBy H \<lparr>sort_field = f, sort_direction = d\<rparr> b c < 0"
    then show "compareBy H \<lparr>sort_field = f, sort_direction = d\<rparr> a c < 0"
      using num [of a] num [of b] num [of c]
      by (auto simp add: compareBy_numbers split: if_splits)
  next
    fix a b c assume "a \<in> S" "b \<in> S" "c \<in> S"
      "compareBy H \<lparr>sort_field = f, sort_direction = d\<rparr> a b > 0
       \<and> compareBy H \<lparr>sort_field = f, sort_direction = d\<rparr> b c > 0"
    then show "compareBy H \<lparr>sort_field = f, sort_direction = d\<rparr> a c > 0"
      using num [of a] num [of b] num [of c]
      by (auto simp add: compareBy_numbers split: if_splits)
  qed
qed

lemma consistent_has_key:
  assumes "consistentOn (compareBy H srt) S" and "a \<in> S"
  shows "getProp a (sort_field srt) \<noteq> JUndefined \<and> getProp a (sort_field srt) \<noteq> JNull"
proof -
  from assms have "compareBy H srt a a = 0"
    unfolding consistentOn_def by blast
  then show ?thesis
    by (auto simp add: compareBy_def Let_def split: if_splits)
qed

lemma consistent_ascending:
  assumes c: "consistentOn (compareBy H srt) S" and m: "a \<in> S" "b \<in> S"
      and asc: "sort_direction srt = Asc"
  shows "compareBy H srt a b \<le> 0 \<longleftrightarrow>
         \<not> js_lt H (getProp b (sort_field srt)) (getProp a (sort_field srt))"
proof -
  note ka = consistent_has_key [OF c m(1)] and kb = consistent_has_key [OF c m(2)]
  show ?thesis
  proof (cases "js_lt H (getProp a (sort_field srt)) (getProp b (sort_field srt))")
    case True
    with ka kb asc have ab: "compareBy H srt a b < 0"
      by (simp add: compareBy_def Let_def)
    have "\<not> js_lt H (getProp b (sort_field srt)) (getProp a (sort_field srt))"
    proof
      assume "js_lt H (getProp b (sort_field srt)) (getProp a (sort_field srt))"
      with ka kb asc have "compareBy H srt b a < 0"
        by (simp add: compareBy_def Let_def)
      moreover from ab have "compareBy H srt b a > 0"
        using consistent_flip' [OF c m] by simp
      ultimately show False by simp
    qed
    with ab show ?thesis by simp
  next
    case False
    with ka kb asc show ?thesis
      by (simp add: compareBy_def Let_def)
  qed
qed

lemma consistent_sorted_ascending:
  assumes "consistentOn (compareBy H srt) S" and "set xs \<subseteq> S" and "sort_direction srt = Asc"
  shows "sorted_wrt (\<lambda>a b. compareBy H srt a b \<le> 0) xs \<longleftrightarrow>
         sorted_wrt (\<lambda>a b. \<not> js_lt H (getProp b (sort_field srt)) (getProp a (sort_field srt))) xs"
  using assms(2)
proof (induction xs)
  case Nil
  then show ?case by simp
next
  case (Cons x xs)
  then have "\<And>y. y \<in> set xs \<Longrightarrow>
      (compareBy H srt x y \<le> 0) =
      (\<not> js_lt H (getProp y (sort_field srt)) (getProp x (sort_field srt)))"
    using consistent_ascending [OF assms(1) _ _ assms(3), of x] by auto
  with Cons show ?case by auto
qed

lemma isNumber_idRecord: "isNumber (getProp (idRecord n) ''id'')"
  by (simp add: idRecord_def getProp_def)

lemma insertSorted_cong:
  "(\<And>b. b \<in> set ys \<Longrightarrow> cmp x b = cmp' x b) \<Longrightarrow>
   insertSorted cmp x ys = insertSorted cmp' x ys"
  by (induction ys) simp_all

lemma stableSort_cong:
  "(\<And>a b. a \<in> set xs \<Longrightarrow> b \<in> set xs \<Longrightarrow> cmp a b = cmp' a b) \<Longrightarrow>
   stableSort cmp xs = stableSort cmp' xs"
proof (induction xs)
  case Nil
  then show ?case by (simp add: stableSort_def)
next
  case (Cons x xs)
  then have "stableSort cmp xs = stableSort cmp' xs" by simp
  moreover have "insertSorted cmp x (stableSort cmp' xs) = insertSorted cmp' x (stableSort cmp' xs)"
    by (rule insertSorted_cong) (simp add: Cons.prems)
  ultimately show ?case by (simp add: stableSort_Cons)
qed

lemma applySort_numeric_keys:
  assumes "conformingSort H"
      and "resolveSort so = Some \<lparr>sort_field = f, sort_direction = d\<rparr>"
      and "\<And>r. r \<in> set xs \<Longrightarrow> isNumber (getProp r f)"
  shows "applySort H so xs = stableSort (compareBy exampleHost \<lparr>sort_field = f, sort_direction = d\<rparr>) xs"
proof -
  let ?s = "\<lparr>sort_field = f, sort_direction = d\<rparr>"
  have "consistentOn (compareBy H ?s) (set xs)"
    by (rule numeric_keys_consistent) (rule assms(3))
  with assms(1) have "sortArray H (compareBy H ?s) xs = stableSort (compareBy H ?s) xs"
    by (rule conforming_sort_is_stableSort)
  moreover have "stableSort (compareBy H ?s) xs = stableSort (compareBy exampleHost ?s) xs"
  proof (rule stableSort_cong)
    fix a b assume "a \<in> set xs" "b \<in> set xs"
    then obtain x y where "getProp a f = JNum x" "getProp b f = JNum y"
      using assms(3) [of a] assms(3) [of b]
      by (cases "getProp a f"; cases "getProp b f") simp_all
    then show "compareBy H ?s a b = compareBy exampleHost ?s a b"
      by (simp add: compareBy_numbers)
  qed
  ultimately show ?thesis using assms(2) by (simp add: applySort_def)
qed

lemma query_numeric_page:
  assumes "conformingSort H"
      and "getTableMetadata db t = Some tm"
      and "q_filter opts = []" and "q_fields opts = []"
      and "resolveSort (q_sort opts) = Some \<lparr>sort_field = f, sort_direction = d\<rparr>"
      and "sliceTo (drop (q_offset opts) (readableChunks db t [0..<chunksCount tm])) (q_limit opts)
             = pg"
      and "\<And>r. r \<in> set pg \<Longrightarrow> isNumber (getProp r f)"
  shows "map_sum id r_data (query H db t opts) =
           Inr (stableSort (compareBy exampleHost \<lparr>sort_field = f, sort_direction = d\<rparr>) pg)"
proof -
  have "streamPage H db t opts (chunksCount tm) = pg"
    using assms(3,6) by (simp add: streamPage_rows filterData_def)
  then show ?thesis
    using query_value [OF assms(2), of H opts] assms(4)
      applySort_numeric_keys [OF assms(1) assms(5), of pg] assms(7)
    by (simp add: selectFields_def)
qed

lemma sameElements_applySort:
  "conformingSort H \<Longrightarrow> sameElements (applySort H so xs) xs"
  by (simp add: applySort_def conformingSort_def sameElements_def split: option.splits)

section \<open>Unreadable chunks\<close>

lemma readChunk_chunkFile:
  "readChunk db t k =
     (case chunkFile db t k of Some (Parsed chunkData) \<Rightarrow> Some chunkData | _ \<Rightarrow> None)"
  by (cases "t = ''deals''")
     (auto simp add: readChunk_def chunkFile_def split: option.splits file_content.splits)

lemma readableChunks_skip:
  "readChunk db t k = None \<Longrightarrow>
   readableChunks db t (filter (\<lambda>i. i \<noteq> k) idxs) = readableChunks db t idxs"
  by (induction idxs) (auto simp add: readableChunks_def)

lemma readable_chunk_subset:
  "i \<in> set idxs \<Longrightarrow> readChunk db t i = Some recs \<Longrightarrow>
   set recs \<subseteq> set (readableChunks db t idxs)"
  by (auto simp add: readableChunks_def intro!: bexI [of _ i])

text \<open>
  Claim C5 says that \<^verbatim>\<open>readChunk\<close> returns an empty record sequence for a missing or
  unparseable chunk file. It returns \<^verbatim>\<open>null\<close>, as its documentation says
  (\<^verbatim>\<open>@returns Chunk data or null if not found\<close>): chunk 1 of the stale table has no file,
  and the result is \<^verbatim>\<open>null\<close>, which is not the empty array.
\<close>

theorem missing_chunk_is_null_counterexample:
  "chunkFile staleDb ''deals'' 1 = None
   \<and> readChunk staleDb ''deals'' 1 = None
   \<and> readChunk staleDb ''deals'' 1 \<noteq> Some []"
  by (simp add: chunkFile_def readChunk_def staleDb_def)

text \<open>
  Claim C5, as amended. When the file of chunk \<^verbatim>\<open>k\<close> is missing or does not parse,
  \<^verbatim>\<open>readChunk\<close> returns \<^verbatim>\<open>null\<close> and raises nothing, and the table behaves as if it
  consisted of its other chunks: the full scan \<^verbatim>\<open>getAllData\<close> returns the records of the
  other readable chunks in chunk order, which include every record of every chunk that
  can be read, and every query, whatever its filter, offset, limit, fields and sort,
  succeeds with the page and the total computed from exactly these records. Under a
  conforming runtime the unbounded, unfiltered query returns a reordering of them.
\<close>

theorem unreadable_chunk_is_skipped:
  assumes "chunkFile db t k = None \<or> chunkFile db t k = Some Unparseable"
      and "getTableMetadata db t = Some tm"
  shows "readChunk db t k = None
       \<and> getAllData db t = Inr (readableChunks db t (otherChunks k (chunksCount tm)))
       \<and> (\<forall>j recs. j < chunksCount tm \<and> readChunk db t j = Some recs \<longrightarrow>
             set recs \<subseteq> set (readableChunks db t (otherChunks k (chunksCount tm))))
       \<and> query H db t opts =
           Inr \<lparr>r_data =
                  selectFields (q_fields opts)
                    (applySort H (q_sort opts)
                       (sliceTo
                          (drop (q_offset opts)
                             (filterData H (readableChunks db t (otherChunks k (chunksCount tm)))
                                (q_filter opts)))
                          (q_limit opts))),
                r_total =
                  (if q_filter opts = [] \<and> totalRows tm \<noteq> 0 then totalRows tm
                   else length (filterData H
                                  (readableChunks db t (otherChunks k (chunksCount tm)))
                                  (q_filter opts))),
                r_offset = q_offset opts, r_limit = q_limit opts\<rparr>
       \<and> (conformingSort H \<longrightarrow>
            (\<exists>res. query H db t (unboundedQuery srt) = Inr res
                  \<and> sameElements (r_data res)
                       (readableChunks db t (otherChunks k (chunksCount tm)))))"
proof -
  from assms(1) have null: "readChunk db t k = None"
    by (auto simp add: readChunk_chunkFile)
  then have others:
    "readableChunks db t (otherChunks k (chunksCount tm)) =
     readableChunks db t [0..<chunksCount tm]"
    by (simp add: otherChunks_def readableChunks_skip)
  have scan: "getAllData db t = Inr (readableChunks db t (otherChunks k (chunksCount tm)))"
    using getAllData_readable [OF assms(2)] others by simp
  have kept: "\<forall>j recs. j < chunksCount tm \<and> readChunk db t j = Some recs \<longrightarrow>
             set recs \<subseteq> set (readableChunks db t (otherChunks k (chunksCount tm)))"
    unfolding others
  proof (intro allI impI)
    fix j recs assume "j < chunksCount tm \<and> readChunk db t j = Some recs"
    then show "set recs \<subseteq> set (readableChunks db t [0..<chunksCount tm])"
      by (intro readable_chunk_subset [of j]) simp_all
  qed
  have paged: "query H db t opts =
           Inr \<lparr>r_data =
                  selectFields (q_fields opts)
                    (applySort H (q_sort opts)
                       (sliceTo
                          (drop (q_offset opts)
                             (filterData H (readableChunks db t (otherChunks k (chunksCount tm)))
                                (q_filter opts)))
                          (q_limit opts))),
                r_total =
                  (if q_filter opts = [] \<and> totalRows tm \<noteq> 0 then totalRows tm
                   else length (filterData H
                                  (readableChunks db t (otherChunks k (chunksCount tm)))
                                  (q_filter opts))),
                r_offset = q_offset opts, r_limit = q_limit opts\<rparr>"
    unfolding others using query_value [OF assms(2), of H opts]
    by (simp add: streamPage_rows)
  have full: "\<exists>res. query H db t (unboundedQuery srt) = Inr res
                  \<and> sameElements (r_data res)
                       (readableChunks db t (otherChunks k (chunksCount tm)))"
    if "conformingSort H"
    unfolding others using query_value [OF assms(2), of H "unboundedQuery srt"]
      sameElements_applySort [OF that, of srt "readableChunks db t [0..<chunksCount tm]"]
    by (simp add: streamPage_rows unboundedQuery_def selectFields_def filterData_def)
  from null scan kept paged full show ?thesis by blast
qed

theorem unreadable_chunk_witness:
  "(chunkFile gapDb ''deals'' 1 = None \<or> chunkFile gapDb ''deals'' 1 = Some Unparseable)
   \<and> getTableMetadata gapDb ''deals'' = Some gapMeta
   \<and> conformingSort exampleHost
   \<and> readChunk gapDb ''deals'' 1 = None
   \<and> getAllData gapDb ''deals'' = Inr [idRecord 1, idRecord 2, idRecord 3]
   \<and> map_sum id r_data (query exampleHost gapDb ''deals'' (pageOptions 2 1)) = Inr [idRecord 3]
   \<and> map_sum id r_data (query exampleHost gapDb ''deals'' (pageOptions 1 1)) = Inr [idRecord 2]"
proof -
  have h1: "chunkFile gapDb ''deals'' 1 = None \<or> chunkFile gapDb ''deals'' 1 = Some Unparseable"
    by code_simp
  have h2: "getTableMetadata gapDb ''deals'' = Some gapMeta"
    by code_simp
  have rows: "readableChunks gapDb ''deals'' (otherChunks 1 (chunksCount gapMeta))
                = [idRecord 1, idRecord 2, idRecord 3]"
    by code_simp
  have page2: "selectFields (q_fields (pageOptions 2 1))
                 (applySort exampleHost (q_sort (pageOptions 2 1))
                    (sliceTo (drop (q_offset (pageOptions 2 1))
                                (filterData exampleHost [idRecord 1, idRecord 2, idRecord 3]
                                   (q_filter (pageOptions 2 1))))
                       (q_limit (pageOptions 2 1)))) = [idRecord 3]"
    by code_simp
  have page1: "selectFields (q_fields (pageOptions 1 1))
                 (applySort exampleHost (q_sort (pageOptions 1 1))
                    (sliceTo (drop (q_offset (pageOptions 1 1))
                                (filterData exampleHost [idRecord 1, idRecord 2, idRecord 3]
                                   (q_filter (pageOptions 1 1))))
                       (q_limit (pageOptions 1 1)))) = [idRecord 2]"
    by code_simp
  from unreadable_chunk_is_skipped [OF h1 h2, of exampleHost "pageOptions 2 1"]
       unreadable_chunk_is_skipped [OF h1 h2, of exampleHost "pageOptions 1 1"]
       h1 h2 conformingSort_exampleHost rows page1 page2
  show ?thesis by simp
qed

section \<open>Sorting and paging\<close>

text \<open>
  Claim C9 says that a query without a sort specification returns its page in chunk-stream
  order. Without \<^verbatim>\<open>options.sort\<close> the destructuring default
  \<^verbatim>\<open>{ field: 'id', direction: 'asc' }\<close> applies and the page is sorted by \<^verbatim>\<open>id\<close>: the
  table that stores the deal with \<^verbatim>\<open>id\<close> 2 before the deal with \<^verbatim>\<open>id\<close> 1 is returned
  in the opposite order.
\<close>

theorem default_sort_reorders_counterexample:
  "query exampleHost unorderedDb ''deals'' (pageOptions 0 \<infinity>) =
     Inr \<lparr>r_data = [idRecord 1, idRecord 2], r_total = 2, r_offset = 0, r_limit = \<infinity>\<rparr>
   \<and> q_sort (pageOptions 0 \<infinity>) = SortAbsent
   \<and> streamPage exampleHost unorderedDb ''deals'' (pageOptions 0 \<infinity>) 1 = [idRecord 2, idRecord 1]"
  by code_simp

text \<open>Every conforming runtime returns this order, since the ids are numbers.\<close>

lemma reordering_of_any_conforming_runtime:
  assumes "conformingSort H"
  shows "map_sum id r_data (query H unorderedDb ''deals'' (pageOptions 0 \<infinity>))
           = Inr [idRecord 1, idRecord 2]"
proof -
  have meta: "getTableMetadata unorderedDb ''deals'' = Some unorderedMeta"
    by (simp add: getTableMetadata_def unorderedDb_def unorderedMeta_def)
  have opts: "q_filter (pageOptions 0 \<infinity>) = []" "q_fields (pageOptions 0 \<infinity>) = []"
    "resolveSort (q_sort (pageOptions 0 \<infinity>))
       = Some \<lparr>sort_field = ''id'', sort_direction = Asc\<rparr>"
    by (simp_all add: pageOptions_def resolveSort_def defaultSort_def)
  have rows: "sliceTo (drop (q_offset (pageOptions 0 \<infinity>))
                         (readableChunks unorderedDb ''deals'' [0..<chunksCount unorderedMeta]))
                (q_limit (pageOptions 0 \<infinity>)) = [idRecord 2, idRecord 1]"
    by code_simp
  have sorted: "stableSort (compareBy exampleHost \<lparr>sort_field = ''id'', sort_direction = Asc\<rparr>)
                  [idRecord 2, idRecord 1] = [idRecord 1, idRecord 2]"
    by code_simp
  have "map_sum id r_data (query H unorderedDb ''deals'' (pageOptions 0 \<infinity>))
          = Inr (stableSort (compareBy exampleHost \<lparr>sort_field = ''id'', sort_direction = Asc\<rparr>)
                   [idRecord 2, idRecord 1])"
  proof (rule query_numeric_page [OF assms meta opts])
    show "sliceTo (drop (q_offset (pageOptions 0 \<infinity>))
                     (readableChunks unorderedDb ''deals'' [0..<chunksCount unorderedMeta]))
            (q_limit (pageOptions 0 \<infinity>)) = [idRecord 2, idRecord 1]"
      by (rule rows)
  next
    fix r assume "r \<in> set [idRecord 2, idRecord 1]"
    then show "isNumber (getProp r ''id'')"
      by (auto simp add: isNumber_idRecord)
  qed
  then show ?thesis
    unfolding sorted .
qed

text \<open>
  Claim C9, as amended. When the options hold no sort specification, the collected page
  is sorted with the default comparator for \<^verbatim>\<open>id\<close> ascending before the field selection.
  Under a conforming runtime the result is always a reordering of the page in
  chunk-stream order. When the comparator is consistent on the page, as it is when every
  record of the page has a number as \<^verbatim>\<open>id\<close>, no record of the result is followed by one
  with a smaller \<^verbatim>\<open>id\<close>, records whose ids compare equal keep their stream order, and a
  page that is already in ascending order is returned as it is. When it is not
  consistent, as with two records without \<^verbatim>\<open>id\<close>, the order is the runtime's choice.
  When \<^verbatim>\<open>sort\<close> is passed as \<^verbatim>\<open>null\<close> the page is returned in chunk-stream order.
\<close>

theorem default_sort_is_by_id:
  assumes "conformingSort H"
      and "query H db t opts = Inr res"
      and "getTableMetadata db t = Some tm"
  shows "(q_sort opts = SortAbsent \<longrightarrow>
            (\<exists>sorted.
               r_data res = selectFields (q_fields opts) sorted
             \<and> sameElements sorted (streamPage H db t opts (chunksCount tm))
             \<and> (consistentOn (compareBy H defaultSort)
                    (set (streamPage H db t opts (chunksCount tm))) \<longrightarrow>
                  sorted_wrt (\<lambda>a b. \<not> js_lt H (getProp b ''id'') (getProp a ''id'')) sorted
                \<and> (\<forall>x\<in>set (streamPage H db t opts (chunksCount tm)).
                      filter (\<lambda>y. compareBy H defaultSort x y = 0) sorted =
                      filter (\<lambda>y. compareBy H defaultSort x y = 0)
                        (streamPage H db t opts (chunksCount tm)))
                \<and> (sorted_wrt (\<lambda>a b. \<not> js_lt H (getProp b ''id'') (getProp a ''id''))
                      (streamPage H db t opts (chunksCount tm)) \<longrightarrow>
                    sorted = streamPage H db t opts (chunksCount tm)))))
       \<and> (q_sort opts = SortNull \<longrightarrow>
            r_data res = selectFields (q_fields opts) (streamPage H db t opts (chunksCount tm)))"
proof -
  let ?page = "streamPage H db t opts (chunksCount tm)"
  let ?cmp = "compareBy H defaultSort"
  let ?sorted = "sortArray H ?cmp ?page"
  from assms(2,3) have data:
    "r_data res = selectFields (q_fields opts) (applySort H (q_sort opts) ?page)"
    by (auto simp add: query_value)
  have dflt: "sort_field defaultSort = ''id''" "sort_direction defaultSort = Asc"
    by (simp_all add: defaultSort_def)
  have perm: "sameElements ?sorted ?page"
    using assms(1) by (simp add: conformingSort_def)
  have ordered:
    "sorted_wrt (\<lambda>a b. \<not> js_lt H (getProp b ''id'') (getProp a ''id'')) ?sorted
     \<and> (\<forall>x\<in>set ?page. filter (\<lambda>y. ?cmp x y = 0) ?sorted = filter (\<lambda>y. ?cmp x y = 0) ?page)
     \<and> (sorted_wrt (\<lambda>a b. \<not> js_lt H (getProp b ''id'') (getProp a ''id'')) ?page \<longrightarrow>
          ?sorted = ?page)"
    if cons: "consistentOn ?cmp (set ?page)"
  proof -
    from assms(1) cons have st: "stablySorted ?cmp ?page ?sorted"
      by (simp add: conformingSort_def)
    have same: "set ?sorted = set ?page"
      using perm by (rule sameElements_set)
    from st have "sorted_wrt (\<lambda>a b. ?cmp a b \<le> 0) ?sorted"
      by (simp add: stablySorted_def)
    then have one: "sorted_wrt (\<lambda>a b. \<not> js_lt H (getProp b ''id'') (getProp a ''id'')) ?sorted"
      using consistent_sorted_ascending [OF cons, of ?sorted] same dflt by simp
    from st have two:
      "\<forall>x\<in>set ?page. filter (\<lambda>y. ?cmp x y = 0) ?sorted = filter (\<lambda>y. ?cmp x y = 0) ?page"
      by (simp add: stablySorted_def)
    have three: "?sorted = ?page"
      if "sorted_wrt (\<lambda>a b. \<not> js_lt H (getProp b ''id'') (getProp a ''id'')) ?page"
    proof -
      from that have "sorted_wrt (\<lambda>a b. ?cmp a b \<le> 0) ?page"
        using consistent_sorted_ascending [OF cons, of ?page] dflt by simp
      then have "stableSort ?cmp ?page = ?page"
        by (rule stableSort_in_order)
      with conforming_sort_is_stableSort [OF assms(1) cons] show ?thesis by simp
    qed
    from one two three show ?thesis by blast
  qed
  have absent: "r_data res = selectFields (q_fields opts) ?sorted" if "q_sort opts = SortAbsent"
    using data that by (simp add: applySort_def resolveSort_def)
  have null: "r_data res = selectFields (q_fields opts) ?page" if "q_sort opts = SortNull"
    using data that by (simp add: applySort_def resolveSort_def)
  from absent perm ordered null show ?thesis by blast
qed

theorem default_sort_witness:
  "conformingSort exampleHost
   \<and> query exampleHost unorderedDb ''deals'' (pageOptions 0 \<infinity>) = Inr reorderedResult
   \<and> getTableMetadata unorderedDb ''deals'' = Some unorderedMeta
   \<and> q_sort (pageOptions 0 \<infinity>) = SortAbsent
   \<and> consistentOn (compareBy exampleHost defaultSort)
        (set (streamPage exampleHost unorderedDb ''deals'' (pageOptions 0 \<infinity>)
                (chunksCount unorderedMeta)))
   \<and> (\<exists>sorted.
         r_data reorderedResult = selectFields (q_fields (pageOptions 0 \<infinity>)) sorted
       \<and> sameElements sorted
           (streamPage exampleHost unorderedDb ''deals'' (pageOptions 0 \<infinity>)
              (chunksCount unorderedMeta))
       \<and> sorted_wrt (\<lambda>a b. \<not> js_lt exampleHost (getProp b ''id'') (getProp a ''id'')) sorted)"
proof -
  have h1: "query exampleHost unorderedDb ''deals'' (pageOptions 0 \<infinity>) = Inr reorderedResult"
    by code_simp
  have h2: "getTableMetadata unorderedDb ''deals'' = Some unorderedMeta"
    by code_simp
  have h3: "q_sort (pageOptions 0 \<infinity>) = SortAbsent"
    by (simp add: pageOptions_def)
  have page: "streamPage exampleHost unorderedDb ''deals'' (pageOptions 0 \<infinity>)
                (chunksCount unorderedMeta) = [idRecord 2, idRecord 1]"
    by code_simp
  have h4: "consistentOn (compareBy exampleHost defaultSort)
        (set (streamPage exampleHost unorderedDb ''deals'' (pageOptions 0 \<infinity>)
                (chunksCount unorderedMeta)))"
    unfolding page defaultSort_def
    by (rule numeric_keys_consistent) (auto simp add: isNumber_idRecord)
  from default_sort_is_by_id [OF conformingSort_exampleHost h1 h2] h3 h4
  have "\<exists>sorted.
         r_data reorderedResult = selectFields (q_fields (pageOptions 0 \<infinity>)) sorted
       \<and> sameElements sorted
           (streamPage exampleHost unorderedDb ''deals'' (pageOptions 0 \<infinity>)
              (chunksCount unorderedMeta))
       \<and> sorted_wrt (\<lambda>a b. \<not> js_lt exampleHost (getProp b ''id'') (getProp a ''id'')) sorted"
    by blast
  with conformingSort_exampleHost h1 h2 h3 h4 show ?thesis by blast
qed

text \<open>
  Paging without sorting: consecutive pages concatenate to the page that spans them. This
  is what the chunk loop alone guarantees.
\<close>

lemma selectFields_append:
  "selectFields fs (xs @ ys) = selectFields fs xs @ selectFields fs ys"
  by (simp add: selectFields_def)

lemma pages_concatenate_without_sort:
  assumes "getTableMetadata db t = Some tm"
  shows "\<exists>p1 p2 p.
           query H db t \<lparr>q_filter = flt, q_limit = enat n, q_offset = a, q_fields = fs,
                          q_sort = SortNull\<rparr> = Inr p1
         \<and> query H db t \<lparr>q_filter = flt, q_limit = enat m, q_offset = a + n, q_fields = fs,
                          q_sort = SortNull\<rparr> = Inr p2
         \<and> query H db t \<lparr>q_filter = flt, q_limit = enat (n + m), q_offset = a, q_fields = fs,
                          q_sort = SortNull\<rparr> = Inr p
         \<and> r_data p1 @ r_data p2 = r_data p"
proof -
  let ?S = "matchingStream H db t flt [0..<chunksCount tm]"
  have "take (n + m) (drop a ?S) = take n (drop a ?S) @ take m (drop n (drop a ?S))"
    by (rule take_add)
  moreover have "drop n (drop a ?S) = drop (a + n) ?S"
    by (simp add: add.commute)
  ultimately have "take n (drop a ?S) @ take m (drop (a + n) ?S) = take (n + m) (drop a ?S)"
    by simp
  then show ?thesis
    by (simp add: query_value [OF assms] streamPage_def applySort_def resolveSort_def sliceTo_def
          selectFields_append [symmetric])
qed

text \<open>
  On the table of 51 deals every conforming runtime returns the same three pages, since
  the ids are numbers.
\<close>

lemma pages_of_any_conforming_runtime:
  assumes "conformingSort H"
  shows "map_sum id r_data (query H pagingDb ''deals'' (pageOptions 0 50))
           = Inr (map idRecord [2..<52])
       \<and> map_sum id r_data (query H pagingDb ''deals'' (pageOptions 50 50))
           = Inr [idRecord 1]
       \<and> map_sum id r_data (query H pagingDb ''deals'' (pageOptions 0 100))
           = Inr (map idRecord [1..<52])"
proof -
  have meta: "getTableMetadata pagingDb ''deals'' = Some pagingMeta"
    by (simp add: getTableMetadata_def pagingDb_def pagingMeta_def)
  have opts: "q_filter (pageOptions a l) = []" "q_fields (pageOptions a l) = []"
    "resolveSort (q_sort (pageOptions a l)) = Some \<lparr>sort_field = ''id'', sort_direction = Asc\<rparr>"
    "q_offset (pageOptions a l) = a" "q_limit (pageOptions a l) = l" for a l
    by (simp_all add: pageOptions_def resolveSort_def defaultSort_def)
  have p1: "sliceTo (drop 0 (readableChunks pagingDb ''deals'' [0..<chunksCount pagingMeta])) 50
              = map idRecord [2..<52]"
    by code_simp
  have p2: "sliceTo (drop 50 (readableChunks pagingDb ''deals'' [0..<chunksCount pagingMeta])) 50
              = [idRecord 1]"
    by code_simp
  have p3: "sliceTo (drop 0 (readableChunks pagingDb ''deals'' [0..<chunksCount pagingMeta])) 100
              = map idRecord [2..<52] @ [idRecord 1]"
    by code_simp
  have s1: "stableSort (compareBy exampleHost \<lparr>sort_field = ''id'', sort_direction = Asc\<rparr>)
              (map idRecord [2..<52]) = map idRecord [2..<52]"
    by code_simp
  have s2: "stableSort (compareBy exampleHost \<lparr>sort_field = ''id'', sort_direction = Asc\<rparr>)
              [idRecord 1] = [idRecord 1]"
    by code_simp
  have s3: "stableSort (compareBy exampleHost \<lparr>sort_field = ''id'', sort_direction = Asc\<rparr>)
              (map idRecord [2..<52] @ [idRecord 1]) = map idRecord [1..<52]"
    by code_simp
  have "map_sum id r_data (query H pagingDb ''deals'' (pageOptions 0 50))
           = Inr (stableSort (compareBy exampleHost \<lparr>sort_field = ''id'', sort_direction = Asc\<rparr>)
                    (map idRecord [2..<52]))"
  proof (rule query_numeric_page [OF assms meta opts(1,2,3)])
    show "sliceTo (drop (q_offset (pageOptions 0 50))
                     (readableChunks pagingDb ''deals'' [0..<chunksCount pagingMeta]))
            (q_limit (pageOptions 0 50)) = map idRecord [2..<52]"
      unfolding opts by (rule p1)
  next
    fix r assume "r \<in> set (map idRecord [2..<52])"
    then show "isNumber (getProp r ''id'')"
      by (auto simp add: isNumber_idRecord)
  qed
  then have one: "map_sum id r_data (query H pagingDb ''deals'' (pageOptions 0 50))
           = Inr (map idRecord [2..<52])"
    unfolding s1 .
  have "map_sum id r_data (query H pagingDb ''deals'' (pageOptions 50 50))
           = Inr (stableSort (compareBy exampleHost \<lparr>sort_field = ''id'', sort_direction = Asc\<rparr>)
                    ([idRecord 1]))"
  proof (rule query_numeric_page [OF assms meta opts(1,2,3)])
    show "sliceTo (drop (q_offset (pageOptions 50 50))
                     (readableChunks pagingDb ''deals'' [0..<chunksCount pagingMeta]))
            (q_limit (pageOptions 50 50)) = [idRecord 1]"
      unfolding opts by (rule p2)
  next
    fix r assume "r \<in> set ([idRecord 1])"
    then show "isNumber (getProp r ''id'')"
      by (auto simp add: isNumber_idRecord)
  qed
  then have two: "map_sum id r_data (query H pagingDb ''deals'' (pageOptions 50 50))
           = Inr [idRecord 1]"
    unfolding s2 .
  have "map_sum id r_data (query H pagingDb ''deals'' (pageOptions 0 100))
           = Inr (stableSort (compareBy exampleHost \<lparr>sort_field = ''id'', sort_direction = Asc\<rparr>)
                    (map idRecord [2..<52] @ [idRecord 1]))"
  proof (rule query_numeric_page [OF assms meta opts(1,2,3)])
    show "sliceTo (drop (q_offset (pageOptions 0 100))
                     (readableChunks pagingDb ''deals'' [0..<chunksCount pagingMeta]))
            (q_limit (pageOptions 0 100)) = map idRecord [2..<52] @ [idRecord 1]"
      unfolding opts by (rule p3)
  next
    fix r assume "r \<in> set (map idRecord [2..<52] @ [idRecord 1])"
    then show "isNumber (getProp r ''id'')"
      by (auto simp add: isNumber_idRecord)
  qed
  then have three: "map_sum id r_data (query H pagingDb ''deals'' (pageOptions 0 100))
           = Inr (map idRecord [1..<52])"
    unfolding s3 .
  from one two three show ?thesis by blast
qed

text \<open>
  Claim C1 says that, for a fixed filter and sort, the page at offset 0 and the page at
  offset 50, both of limit 50, concatenate to the page at offset 0 of limit 100. The
  sort runs on each collected page, after the offset and the limit have been applied. On
  the table of 51 deals the first page holds the ids 2 to 51, the second the id 1, and
  the page of limit 100 starts with the id 1: the concatenation differs from it.
\<close>

theorem pages_are_sorted_after_slicing:
  "map_sum id r_data (query exampleHost pagingDb ''deals'' (pageOptions 0 50))
     = Inr (map idRecord [2..<52])
   \<and> map_sum id r_data (query exampleHost pagingDb ''deals'' (pageOptions 50 50))
     = Inr [idRecord 1]
   \<and> map_sum id r_data (query exampleHost pagingDb ''deals'' (pageOptions 0 100))
     = Inr (map idRecord [1..<52])
   \<and> map idRecord [2..<52] @ [idRecord 1] \<noteq> map idRecord [1..<52]"
  by code_simp

section \<open>Unknown tables and deals\<close>

text \<open>
  Claim C6 says that \<^verbatim>\<open>query\<close> signals NotFound for every table name that is not in the
  loaded metadata. The metadata object is a plain object, and \<^verbatim>\<open>getTableMetadata\<close>
  reads it with \<^verbatim>\<open>this.metadata[tableName]\<close>: for the name \<^verbatim>\<open>constructor\<close>, which is no
  table, the read yields the inherited built-in, the guard \<^verbatim>\<open>if (!tableMetadata)\<close> lets
  it pass, and the query returns an empty result with total 0.
\<close>

theorem inherited_name_is_served:
  "''constructor'' \<notin> set (getTables pagingDb)
   \<and> query exampleHost pagingDb ''constructor'' (pageOptions 0 \<infinity>)
       = Inr \<lparr>r_data = [], r_total = 0, r_offset = 0, r_limit = \<infinity>\<rparr>"
  by code_simp

text \<open>
  What does hold: a name that is neither a loaded table nor a member of
  \<^verbatim>\<open>Object.prototype\<close> makes \<^verbatim>\<open>query\<close> throw, and \<^verbatim>\<open>getDealById\<close> throws whenever no
  record of a readable chunk has an \<^verbatim>\<open>id\<close> loosely equal to the argument.
\<close>

lemma query_unknown_table:
  assumes "t \<notin> set (getTables db)" and "t \<notin> set objectPrototypeMembers"
  shows "query H db t opts = Inl (TableNotFound t)"
proof -
  from assms(1) have "map_of (metadata db) t = None"
    by (simp add: getTables_def map_of_eq_None_iff)
  with assms(2) show ?thesis
    by (simp add: query_not_found getTableMetadata_def)
qed

lemma getDealByIdLoop_no_match:
  assumes "\<And>i recs d. i \<in> set idxs \<Longrightarrow> readChunk db ''deals'' i = Some recs \<Longrightarrow> d \<in> set recs
             \<Longrightarrow> \<not> loose_eq H (getProp d ''id'') ident"
  shows "getDealByIdLoop H db ident idxs = Inl (DealNotFound ident)"
  using assms
proof (induction idxs)
  case Nil
  then show ?case by simp
next
  case (Cons i rest)
  have rest: "getDealByIdLoop H db ident rest = Inl (DealNotFound ident)"
  proof (rule Cons.IH)
    fix j recs d
    assume "j \<in> set rest" "readChunk db ''deals'' j = Some recs" "d \<in> set recs"
    then show "\<not> loose_eq H (getProp d ''id'') ident"
      using Cons.prems [of j recs d] by simp
  qed
  show ?case
  proof (cases "readChunk db ''deals'' i")
    case None
    with rest show ?thesis by simp
  next
    case (Some recs)
    have "find (\<lambda>d. loose_eq H (getProp d ''id'') ident) recs = None"
      unfolding find_None_iff using Cons.prems [of i recs] Some by simp
    with Some rest show ?thesis by simp
  qed
qed

lemma getDealById_no_match:
  assumes "getTableMetadata db ''deals'' = Some tm"
      and "\<And>i recs d. i < chunksCount tm \<Longrightarrow> readChunk db ''deals'' i = Some recs
             \<Longrightarrow> d \<in> set recs \<Longrightarrow> \<not> loose_eq H (getProp d ''id'') ident"
  shows "getDealById H db ident = Inl (DealNotFound ident)"
proof -
  have "getDealByIdLoop H db ident [0..<chunksCount tm] = Inl (DealNotFound ident)"
  proof (rule getDealByIdLoop_no_match)
    fix i recs d
    assume "i \<in> set [0..<chunksCount tm]" "readChunk db ''deals'' i = Some recs" "d \<in> set recs"
    then show "\<not> loose_eq H (getProp d ''id'') ident"
      using assms(2) [of i recs d] by simp
  qed
  with assms(1) show ?thesis
    by (simp add: getDealById_def)
qed

lemma getDealById_no_table:
  "getTableMetadata db ''deals'' = None \<Longrightarrow> getDealById H db ident = Inl (TableNotFound ''deals'')"
  by (simp add: getDealById_def)

section \<open>The average deal size\<close>

text \<open>
  Claim C7 says that the average divides the sum of the numeric transaction values by
  their number. The guard \<^verbatim>\<open>if (value && typeof value === 'number')\<close> also leaves out
  the number 0, which is falsy: of the two deals with the values 0 and 10 only the second
  is counted, and the average is 10, where the claim gives (0 + 10) / 2 = 5.
\<close>

theorem average_leaves_out_zero_values:
  "getStatistics zeroValueDb =
     Inr \<lparr>totalDeals = 2, totalValue = 10, avgDealSize = 10, largestDeal = 10,
          completedDeals = 0, announcedDeals = 0, pendingDeals = 0\<rparr>"
  by code_simp

text \<open>The specification's example, the values 10, 20, \<^verbatim>\<open>null\<close> and 30, does average to 20.\<close>

lemma average_of_spec_example:
  "map_sum id avgDealSize (getStatistics specExampleDb) = Inr 20"
  by code_simp

text \<open>
  What the loop computes for every table: the average of the counted values, those that
  are numbers other than 0, over all readable chunks; 0 when there is none.
\<close>

lemma addValue_sum:
  "v_sumValues (addValue vars deal) = v_sumValues vars + sum_list (countedValues [deal])"
  "v_valueCount (addValue vars deal) = v_valueCount vars + length (countedValues [deal])"
  by (simp_all add: addValue_def countedValues_def Let_def split: jsval.splits)

lemma addStatus_keeps:
  "v_sumValues (addStatus vars deal) = v_sumValues vars"
  "v_valueCount (addStatus vars deal) = v_valueCount vars"
  by (simp_all add: addStatus_def Let_def)

lemma countedValues_append:
  "countedValues (xs @ ys) = countedValues xs @ countedValues ys"
  by (simp add: countedValues_def)

lemma deals_loop_sum:
  "v_sumValues (foldl (\<lambda>vs deal. addStatus (addValue vs deal) deal) vars rows)
     = v_sumValues vars + sum_list (countedValues rows)
   \<and> v_valueCount (foldl (\<lambda>vs deal. addStatus (addValue vs deal) deal) vars rows)
     = v_valueCount vars + length (countedValues rows)"
proof (induction rows arbitrary: vars)
  case Nil
  then show ?case by (simp add: countedValues_def)
next
  case (Cons deal rows)
  have "countedValues (deal # rows) = countedValues [deal] @ countedValues rows"
    using countedValues_append [of "[deal]" rows] by simp
  with Cons [of "addStatus (addValue vars deal) deal"] show ?case
    by (simp add: addStatus_keeps addValue_sum)
qed

lemma statsChunk_sum:
  "v_sumValues (statsChunk vars chunkData) = v_sumValues vars + sum_list (countedValues chunkData)"
  "v_valueCount (statsChunk vars chunkData) = v_valueCount vars + length (countedValues chunkData)"
  using deals_loop_sum [of "vars\<lparr>v_totalDeals := v_totalDeals vars + length chunkData\<rparr>" chunkData]
  by (simp_all add: statsChunk_def)

lemma chunks_loop_sum:
  "v_sumValues (foldl (\<lambda>vs i. case readChunk db ''deals'' i of
                                None \<Rightarrow> vs | Some chunkData \<Rightarrow> statsChunk vs chunkData) vars idxs)
     = v_sumValues vars + sum_list (countedValues (readableChunks db ''deals'' idxs))
   \<and> v_valueCount (foldl (\<lambda>vs i. case readChunk db ''deals'' i of
                                None \<Rightarrow> vs | Some chunkData \<Rightarrow> statsChunk vs chunkData) vars idxs)
     = v_valueCount vars + length (countedValues (readableChunks db ''deals'' idxs))"
proof (induction idxs arbitrary: vars)
  case Nil
  then show ?case by (simp add: readableChunks_def countedValues_def)
next
  case (Cons i idxs)
  have split: "readableChunks db ''deals'' (i # idxs) =
        (case readChunk db ''deals'' i of None \<Rightarrow> [] | Some chunkData \<Rightarrow> chunkData)
          @ readableChunks db ''deals'' idxs"
    by (simp add: readableChunks_def)
  show ?case
  proof (cases "readChunk db ''deals'' i")
    case None
    with Cons [of vars] split show ?thesis by simp
  next
    case (Some chunkData)
    with Cons [of "statsChunk vars chunkData"] split show ?thesis
      by (simp add: statsChunk_sum countedValues_append)
  qed
qed

lemma average_is_over_nonzero_numbers:
  assumes "getTableMetadata db ''deals'' = Some tm"
  shows "map_sum id avgDealSize (getStatistics db) =
           Inr (let counted = countedValues (readableChunks db ''deals'' [0..<chunksCount tm])
                in if counted = [] then 0 else sum_list counted / of_nat (length counted))"
  using chunks_loop_sum [of db initialVars "[0..<chunksCount tm]"] assms
  by (simp add: getStatistics_def Let_def initialVars_def)

section \<open>The record schema adapter is idempotent\<close>

lemma getProp_Cons:
  "getProp ((k, v) # rest) key = (if k = key then v else getProp rest key)"
  by (simp add: getProp_def)

lemma getProp_Nil:
  "getProp [] key = (if key \<in> set objectPrototypeMembers then JInherited key else JUndefined)"
  by (simp add: getProp_def)

lemma js_or_undefined [simp]: "js_or JUndefined b = b"
  by (simp add: js_or_def)

lemma transform_fields:
  "map fst (transformDealToCamelCase r) = canonicalFields"
  by (simp add: transformDealToCamelCase_def canonicalFields_def)

lemma transform_idem:
  "transformDealToCamelCase (transformDealToCamelCase r) = transformDealToCamelCase r"
  by (simp add: transformDealToCamelCase_def [of "transformDealToCamelCase r"])
     (simp add: transformDealToCamelCase_def [of r] getProp_Cons getProp_Nil
        objectPrototypeMembers_def)

lemma getProp_absent:
  assumes "key \<notin> set (map fst r)" and "key \<notin> set objectPrototypeMembers"
  shows "getProp r key = JUndefined"
proof -
  from assms(1) have "map_of r key = None"
    by (simp add: map_of_eq_None_iff)
  with assms(2) show ?thesis
    by (simp add: getProp_def)
qed

lemma getProp_own:
  "distinct (map fst r) \<Longrightarrow> (k, v) \<in> set r \<Longrightarrow> getProp r k = v"
  by (simp add: getProp_def)

lemma rebuild_record:
  assumes "distinct (map fst r)"
  shows "map (\<lambda>k. (k, getProp r k)) (map fst r) = r"
proof -
  have "map (\<lambda>p. (fst p, getProp r (fst p))) r = map (\<lambda>p. p) r"
  proof (rule map_cong [OF refl])
    fix p assume "p \<in> set r"
    then have "getProp r (fst p) = snd p"
      using getProp_own [OF assms, of "fst p" "snd p"] by simp
    then show "(fst p, getProp r (fst p)) = p" by simp
  qed
  then show ?thesis by (simp add: comp_def)
qed

lemma canonical_record_unchanged:
  assumes "map fst r = canonicalFields"
  shows "transformDealToCamelCase r = r"
proof -
  have keys: "set (map fst r) = set canonicalFields" and dist: "distinct (map fst r)"
    using assms by (simp_all add: canonicalFields_def)
  have absent: "getProp r key = JUndefined"
    if "key \<notin> set canonicalFields" "key \<notin> set objectPrototypeMembers" for key
    using that keys by (intro getProp_absent) simp_all
  have "transformDealToCamelCase r = map (\<lambda>k. (k, getProp r k)) canonicalFields"
    unfolding transformDealToCamelCase_def
    by (simp add: absent canonicalFields_def objectPrototypeMembers_def)
  also have "\<dots> = r"
    using rebuild_record [OF dist] assms by simp
  finally show ?thesis .
qed

text \<open>
  Claim C8. Normalising twice is normalising once: the record that
  \<^verbatim>\<open>transformDealToCamelCase\<close> returns has exactly the twenty canonical fields, and a
  record that has exactly these fields is returned unchanged.
\<close>

theorem adapter_is_idempotent:
  "transformDealToCamelCase (transformDealToCamelCase r) = transformDealToCamelCase r
   \<and> map fst (transformDealToCamelCase r) = canonicalFields
   \<and> (map fst r = canonicalFields \<longrightarrow> transformDealToCamelCase r = r)"
  by (simp add: transform_idem transform_fields canonical_record_unchanged)

theorem adapter_is_idempotent_witness:
  "map fst (transformDealToCamelCase snakeDeal) = canonicalFields
   \<and> transformDealToCamelCase (transformDealToCamelCase snakeDeal)
       = transformDealToCamelCase snakeDeal
   \<and> getProp (transformDealToCamelCase snakeDeal) ''targetName'' = JStr ''Acme''
   \<and> getProp (transformDealToCamelCase snakeDeal) ''transactionValue'' = JNum 12"
proof -
  have h: "map fst (transformDealToCamelCase snakeDeal) = canonicalFields"
    by (rule transform_fields)
  have v: "getProp (transformDealToCamelCase snakeDeal) ''targetName'' = JStr ''Acme''
         \<and> getProp (transformDealToCamelCase snakeDeal) ''transactionValue'' = JNum 12"
    by code_simp
  from adapter_is_idempotent [of "transformDealToCamelCase snakeDeal"] h v
  show ?thesis by simp
qed

end
